theory Spec2Isabelle
  imports Complex_Main
begin

section \<open>Vectors and matrices of the kernels\<close>

text \<open>
  The kernels of \<^verbatim>\<open>mpm_3d_starter.py\<close> compute with 3-vectors and 3x3 matrices of
  floats. The model computes over the reals; a vector is a triple and a matrix is
  the triple of its rows. The helpers below are the component-wise operations that
  Taichi's vector and matrix types provide.
\<close>

type_synonym vec3 = "real \<times> real \<times> real"
type_synonym vec4 = "real \<times> real \<times> real \<times> real"
type_synonym ivec3 = "int \<times> int \<times> int"
type_synonym mat3 = "vec3 \<times> vec3 \<times> vec3"

fun vget :: "'a \<times> 'a \<times> 'a \<Rightarrow> nat \<Rightarrow> 'a" where
  "vget (a, b, c) d = (if d = 0 then a else if d = 1 then b else c)"

fun vset :: "'a \<times> 'a \<times> 'a \<Rightarrow> nat \<Rightarrow> 'a \<Rightarrow> 'a \<times> 'a \<times> 'a" where
  "vset (a, b, c) d r =
     (if d = 0 then (r, b, c) else if d = 1 then (a, r, c) else (a, b, r))"

fun vmap :: "('a \<Rightarrow> 'b) \<Rightarrow> 'a \<times> 'a \<times> 'a \<Rightarrow> 'b \<times> 'b \<times> 'b" where
  "vmap f (a, b, c) = (f a, f b, f c)"

fun vzip :: "('a \<Rightarrow> 'b \<Rightarrow> 'c) \<Rightarrow> 'a \<times> 'a \<times> 'a \<Rightarrow> 'b \<times> 'b \<times> 'b \<Rightarrow> 'c \<times> 'c \<times> 'c" where
  "vzip f (a, b, c) (a', b', c') = (f a a', f b b', f c c')"

definition vzero :: vec3 where
  "vzero = (0, 0, 0)"

definition vadd :: "vec3 \<Rightarrow> vec3 \<Rightarrow> vec3" where
  "vadd u w = vzip (+) u w"

definition vsub :: "vec3 \<Rightarrow> vec3 \<Rightarrow> vec3" where
  "vsub u w = vzip (-) u w"

definition vmul :: "vec3 \<Rightarrow> vec3 \<Rightarrow> vec3" where
  "vmul u w = vzip (*) u w"

definition smul :: "real \<Rightarrow> vec3 \<Rightarrow> vec3" where
  "smul r u = vmap ((*) r) u"

definition ivadd :: "ivec3 \<Rightarrow> ivec3 \<Rightarrow> ivec3" where
  "ivadd u w = vzip (+) u w"

fun dot :: "vec3 \<Rightarrow> vec3 \<Rightarrow> real" where
  "dot (a, b, c) (a', b', c') = a * a' + b * b' + c * c'"

definition mget :: "mat3 \<Rightarrow> nat \<Rightarrow> nat \<Rightarrow> real" where
  "mget M i j = vget (vget M i) j"

definition mset :: "mat3 \<Rightarrow> nat \<Rightarrow> nat \<Rightarrow> real \<Rightarrow> mat3" where
  "mset M i j r = vset M i (vset (vget M i) j r)"

definition mzero :: mat3 where
  "mzero = (vzero, vzero, vzero)"

definition mident :: mat3 where
  "mident = ((1, 0, 0), (0, 1, 0), (0, 0, 1))"

definition madd :: "mat3 \<Rightarrow> mat3 \<Rightarrow> mat3" where
  "madd A B = vzip vadd A B"

definition msub :: "mat3 \<Rightarrow> mat3 \<Rightarrow> mat3" where
  "msub A B = vzip vsub A B"

definition msmul :: "real \<Rightarrow> mat3 \<Rightarrow> mat3" where
  "msmul r A = vmap (smul r) A"

definition mcol :: "mat3 \<Rightarrow> nat \<Rightarrow> vec3" where
  "mcol A j = vmap (\<lambda>row. vget row j) A"

definition mtranspose :: "mat3 \<Rightarrow> mat3" where
  "mtranspose A = (mcol A 0, mcol A 1, mcol A 2)"

definition mvmul :: "mat3 \<Rightarrow> vec3 \<Rightarrow> vec3" where
  "mvmul A u = vmap (\<lambda>row. dot row u) A"

definition mmul :: "mat3 \<Rightarrow> mat3 \<Rightarrow> mat3" where
  "mmul A B = vmap (\<lambda>row. (dot row (mcol B 0), dot row (mcol B 1), dot row (mcol B 2))) A"

definition outer_product :: "vec3 \<Rightarrow> vec3 \<Rightarrow> mat3" where
  "outer_product u w = vmap (\<lambda>a. smul a w) u"

definition mtrace :: "mat3 \<Rightarrow> real" where
  "mtrace A = mget A 0 0 + mget A 1 1 + mget A 2 2"

text \<open>
  \<^verbatim>\<open>.cast(int)\<close> converts a float to an integer by truncation toward zero, as a C
  cast does; \<^verbatim>\<open>.cast(float)\<close> is the inclusion of the integers.
\<close>

definition cast_int :: "real \<Rightarrow> int" where
  "cast_int r = (if 0 \<le> r then \<lfloor>r\<rfloor> else \<lceil>r\<rceil>)"

definition vcast_int :: "vec3 \<Rightarrow> ivec3" where
  "vcast_int u = vmap cast_int u"

definition vcast_float :: "ivec3 \<Rightarrow> vec3" where
  "vcast_float u = vmap real_of_int u"

section \<open>Simulation constants\<close>

definition quality :: nat where
  "quality = 4"

definition n_particles :: nat where
  "n_particles = 8192 * quality ^ 3"

definition n_grid :: int where
  "n_grid = 32 * int quality"

definition dt :: real where
  "dt = 1 / 10000"

definition dx :: real where
  "dx = 1 / real_of_int n_grid"

definition inv_dx :: real where
  "inv_dx = 1 / dx"

definition p_vol :: real where
  "p_vol = (dx * 0.5)\<^sup>2"

definition p_rho :: real where
  "p_rho = 1"

definition p_mass :: real where
  "p_mass = p_vol * p_rho"

definition E_young :: real where
  "E_young = 1000"

definition nu :: real where
  "nu = 0.2"

definition mu_0 :: real where
  "mu_0 = E_young / (2 * (1 + nu))"

definition lambda_0 :: real where
  "lambda_0 = E_young * nu / ((1 + nu) * (1 - 2 * nu))"

definition bound :: int where
  "bound = 3"

definition steps :: nat where
  "steps = 15"

definition WATER :: int where
  "WATER = 0"

definition JELLY :: int where
  "JELLY = 1"

definition SNOW :: int where
  "SNOW = 2"

section \<open>Simulation state\<close>

text \<open>
  The Taichi fields of the module, one record field each. The particle fields
  \<^verbatim>\<open>x\<close>, \<^verbatim>\<open>v\<close>, \<^verbatim>\<open>C\<close> and \<^verbatim>\<open>F\<close> carry the suffix \<open>_p\<close>. Particle
  indices are naturals below \<open>n_particles\<close>; grid indices are integer triples, since
  a neighbourhood's base index is computed by a cast and may fall outside the grid.

  A float is a real number or a non-number: the only division whose divisor is not
  guarded is the one that updates \<^verbatim>\<open>Jp\<close>, so \<open>Jp\<close> holds a \<open>real option\<close> where
  \<open>None\<close> stands for NaN. Every other field is real-valued; a kernel that would have
  to store a NaN there, or that addresses a field outside its shape, stops with a
  \<open>fault\<close>.
\<close>

datatype fault = OutOfBounds | NonFinite | AttributeError | ValueError | OverflowError | Exception string

record mpm =
  x_p :: "nat \<Rightarrow> vec3"
  v_p :: "nat \<Rightarrow> vec3"
  C_p :: "nat \<Rightarrow> mat3"
  F_p :: "nat \<Rightarrow> mat3"
  Jp :: "nat \<Rightarrow> real option"
  grid_v :: "ivec3 \<Rightarrow> vec3"
  grid_m :: "ivec3 \<Rightarrow> real"
  materials :: "nat \<Rightarrow> int"
  is_used :: "nat \<Rightarrow> int"
  colors_random :: "nat \<Rightarrow> vec4"

fun in_grid :: "ivec3 \<Rightarrow> bool" where
  "in_grid (i, j, k) = (0 \<le> i \<and> i < n_grid \<and> 0 \<le> j \<and> j < n_grid \<and> 0 \<le> k \<and> k < n_grid)"

definition grid_nodes :: "ivec3 list" where
  "grid_nodes = List.product [0..n_grid - 1] (List.product [0..n_grid - 1] [0..n_grid - 1])"

text \<open>
  A kernel's outermost loop visits its indices in an unspecified order and every
  iteration finishes; the model visits them in list order and stops at the first
  fault.
\<close>

fun foldE :: "('i \<Rightarrow> 's \<Rightarrow> fault + 's) \<Rightarrow> 'i list \<Rightarrow> 's \<Rightarrow> fault + 's" where
  "foldE f [] s = Inr s"
| "foldE f (i # is) s = (case f i s of Inl e \<Rightarrow> Inl e | Inr s' \<Rightarrow> foldE f is s')"

section \<open>Interpolation kernel\<close>

text \<open>Lines 56-59 of \<^verbatim>\<open>substep_p2g\<close> and lines 124-126 of \<^verbatim>\<open>substep_g2p\<close>.\<close>

definition base_of :: "vec3 \<Rightarrow> ivec3" where
  "base_of xp = vcast_int (vmap (\<lambda>t. t - 0.5) (smul inv_dx xp))"

definition fx_of :: "vec3 \<Rightarrow> vec3" where
  "fx_of xp = vsub (smul inv_dx xp) (vcast_float (base_of xp))"

definition p2g_weights :: "vec3 \<Rightarrow> vec3 list" where
  "p2g_weights fx =
     [vmap (\<lambda>t. 0.5 * (1.5 - t)\<^sup>2) fx, vmap (\<lambda>t. 0.75 - (t - 1)\<^sup>2) fx, vmap (\<lambda>t. 0.5 * (t - 0.5)\<^sup>2) fx]"

definition g2p_weights :: "vec3 \<Rightarrow> vec3 list" where
  "g2p_weights fx =
     [vmap (\<lambda>t. 0.5 * (1.5 - t)\<^sup>2) fx, vmap (\<lambda>t. 0.75 - (t - 1.0)\<^sup>2) fx, vmap (\<lambda>t. 0.5 * (t - 0.5)\<^sup>2) fx]"

text \<open>The 27 offsets of \<^verbatim>\<open>ti.ndrange(dim, dim, dim)\<close>.\<close>

definition offsets :: "(nat \<times> nat \<times> nat) list" where
  "offsets = List.product [0, 1, 2] (List.product [0, 1, 2] [0, 1, 2])"

definition weight_of :: "vec3 list \<Rightarrow> nat \<times> nat \<times> nat \<Rightarrow> real" where
  "weight_of w off = (case off of (i, j, k) \<Rightarrow> vget (w ! i) 0 * vget (w ! j) 1 * vget (w ! k) 2)"

definition offset_int :: "nat \<times> nat \<times> nat \<Rightarrow> ivec3" where
  "offset_int off = vmap int off"

definition offset_float :: "nat \<times> nat \<times> nat \<Rightarrow> vec3" where
  "offset_float off = vmap real off"

section \<open>Grid kernels\<close>

text \<open>\<^verbatim>\<open>substep_zero_out\<close>: every node of the grid is reset.\<close>

definition substep_zero_out :: "mpm \<Rightarrow> mpm" where
  "substep_zero_out s =
     s\<lparr>grid_v := (\<lambda>I. if in_grid I then vzero else grid_v s I),
       grid_m := (\<lambda>I. if in_grid I then 0 else grid_m s I)\<rparr>"

text \<open>
  A float division. The divisor zero gives an infinity or NaN, which is no real
  number.
\<close>

definition fdiv :: "real \<Rightarrow> real \<Rightarrow> real option" where
  "fdiv a b = (if b = 0 then None else Some (a / b))"

text \<open>
  \<^verbatim>\<open>substep_grid\<close>, lines 106-118: gravity and the six boundary tests, on the velocity
  of node \<open>I\<close>.
\<close>

definition grid_boundary :: "real \<Rightarrow> ivec3 \<Rightarrow> vec3 \<Rightarrow> vec3" where
  "grid_boundary gravity I u0 =
     (let u1 = vset u0 1 (vget u0 1 + dt * gravity);
          u2 = (if vget I 0 < bound \<and> vget u1 0 < 0 then vset u1 0 0 else u1);
          u3 = (if vget I 0 > n_grid - bound \<and> vget u2 0 > 0 then vset u2 0 0 else u2);
          u4 = (if vget I 1 < bound \<and> vget u3 1 < 0 then vset u3 1 0 else u3);
          u5 = (if vget I 1 > n_grid - bound \<and> vget u4 1 > 0 then vset u4 1 0 else u4);
          u6 = (if vget I 2 < bound \<and> vget u5 2 < 0 then vset u5 2 0 else u5);
          u7 = (if vget I 2 > n_grid - bound \<and> vget u6 2 > 0 then vset u6 2 0 else u6)
      in u7)"

text \<open>Lines 103-118 for one node: the new velocity, or a fault of the division.\<close>

definition grid_node :: "real \<Rightarrow> ivec3 \<Rightarrow> real \<Rightarrow> vec3 \<Rightarrow> fault + vec3" where
  "grid_node gravity I m mv =
     (if m > 0 then
        (case fdiv 1 m of
           None \<Rightarrow> Inl NonFinite
         | Some r \<Rightarrow> Inr (grid_boundary gravity I (smul r mv)))
      else Inr mv)"

definition grid_step :: "real \<Rightarrow> ivec3 \<Rightarrow> mpm \<Rightarrow> fault + mpm" where
  "grid_step gravity I s =
     (case grid_node gravity I (grid_m s I) (grid_v s I) of
        Inl e \<Rightarrow> Inl e
      | Inr u \<Rightarrow> Inr (s\<lparr>grid_v := (grid_v s)(I := u)\<rparr>))"

definition substep_grid :: "real \<Rightarrow> mpm \<Rightarrow> fault + mpm" where
  "substep_grid gravity s = foldE (grid_step gravity) grid_nodes s"

section \<open>Particle to grid\<close>

text \<open>
  \<^verbatim>\<open>ti.svd\<close> is Taichi's; the kernels are modelled for an arbitrary function that
  returns the three factors \<open>(U, sig, V)\<close>.
\<close>

type_synonym svd_fun = "mat3 \<Rightarrow> mat3 \<times> mat3 \<times> mat3"

text \<open>Multiplication of floats of which each may be NaN.\<close>

fun fmul :: "real option \<Rightarrow> real option \<Rightarrow> real option" where
  "fmul (Some a) (Some b) = Some (a * b)"
| "fmul _ _ = None"

text \<open>
  Lines 66-68: the hardening coefficient. For jelly the exponential is computed and
  overwritten, so a NaN in \<^verbatim>\<open>Jp\<close> does not reach \<open>h\<close>.
\<close>

definition hardening :: "int \<Rightarrow> real option \<Rightarrow> real option" where
  "hardening material jp =
     (if material = JELLY then Some 0.3
      else (case jp of None \<Rightarrow> None | Some j \<Rightarrow> Some (exp (10 * (1.0 - j)))))"

text \<open>Lines 73-76: the new singular value; only snow is clamped.\<close>

definition new_sig_of :: "int \<Rightarrow> real \<Rightarrow> real" where
  "new_sig_of material sig_d =
     (if material = SNOW then min (max sig_d (1 - 0.025)) (1 + 0.0045) else sig_d)"

text \<open>
  Lines 73-79: one iteration of the loop over the singular values, on the triple
  \<open>(Jp[p], sig, J)\<close>.
\<close>

definition plasticity_step :: "int \<Rightarrow> nat \<Rightarrow> real option \<times> mat3 \<times> real \<Rightarrow> real option \<times> mat3 \<times> real" where
  "plasticity_step material d acc =
     (case acc of (jp, sig, J) \<Rightarrow>
        let new_sig = new_sig_of material (mget sig d d)
        in (fmul jp (fdiv (mget sig d d) new_sig), mset sig d d new_sig, J * new_sig))"

definition plasticity :: "int \<Rightarrow> real option \<Rightarrow> mat3 \<Rightarrow> real option \<times> mat3 \<times> real" where
  "plasticity material jp sig = fold (plasticity_step material) [0, 1, 2] (jp, sig, 1.0)"

text \<open>
  Lines 64-86, the branch of the materials other than water: the new \<^verbatim>\<open>F[p]\<close>, the
  new \<^verbatim>\<open>Jp[p]\<close> and \<^verbatim>\<open>affine\<close>.
\<close>

definition p2g_elastic :: "svd_fun \<Rightarrow> int \<Rightarrow> mat3 \<Rightarrow> mat3 \<Rightarrow> real option \<Rightarrow> fault + mat3 \<times> real option \<times> mat3" where
  "p2g_elastic svd material Cp Fp jp =
     (let F1 = mmul (madd mident (msmul dt Cp)) Fp
      in case hardening material jp of
           None \<Rightarrow> Inl NonFinite
         | Some h \<Rightarrow>
             (let mu = mu_0 * h; la = lambda_0 * h
              in case svd F1 of (U, sig, V) \<Rightarrow>
                   (case plasticity material jp sig of (jp', sig', J) \<Rightarrow>
                      (let F2 = (if material = SNOW then mmul (mmul U sig') (mtranspose V) else F1);
                           stress0 = madd (mmul (msmul (2 * mu) (msub F2 (mmul U (mtranspose V)))) (mtranspose F2))
                                          (msmul (la * J * (J - 1)) mident);
                           stress = msmul (- dt * p_vol * 4 * inv_dx * inv_dx) stress0;
                           affine = madd stress (msmul p_mass Cp)
                       in Inr (F2, jp', affine)))))"

text \<open>Lines 88-89, the branch of water: \<^verbatim>\<open>affine\<close>.\<close>

definition p2g_water :: "mat3 \<Rightarrow> real option \<Rightarrow> fault + mat3" where
  "p2g_water Cp jp =
     (case jp of
        None \<Rightarrow> Inl NonFinite
      | Some j \<Rightarrow>
          (let stress = - dt * 4 * E_young * p_vol * (j - 1) * inv_dx * inv_dx
           in Inr (madd (msmul stress mident) (msmul p_mass Cp))))"

text \<open>Lines 62-89: the dispatch on the material.\<close>

definition constitutive :: "svd_fun \<Rightarrow> int \<Rightarrow> mat3 \<Rightarrow> mat3 \<Rightarrow> real option \<Rightarrow> fault + mat3 \<times> real option \<times> mat3" where
  "constitutive svd material Cp Fp jp =
     (if material \<noteq> WATER then p2g_elastic svd material Cp Fp jp
      else (case p2g_water Cp jp of Inl e \<Rightarrow> Inl e | Inr affine \<Rightarrow> Inr (Fp, jp, affine)))"

text \<open>Lines 93-98: the scatter to one of the 27 neighbours.\<close>

definition scatter_node :: "ivec3 \<Rightarrow> vec3 \<Rightarrow> vec3 list \<Rightarrow> vec3 \<Rightarrow> mat3 \<Rightarrow> nat \<times> nat \<times> nat \<Rightarrow> mpm \<Rightarrow> fault + mpm" where
  "scatter_node base fx w vp affine off s =
     (let dpos = smul dx (vsub (offset_float off) fx);
          pos = ivadd base (offset_int off);
          weight = weight_of w off
      in if in_grid pos
         then Inr (s\<lparr>grid_v := (grid_v s)(pos := vadd (grid_v s pos) (smul weight (vadd (smul p_mass vp) (mvmul affine dpos)))),
                     grid_m := (grid_m s)(pos := grid_m s pos + weight * p_mass)\<rparr>)
         else Inl OutOfBounds)"

definition p2g_particle :: "svd_fun \<Rightarrow> nat \<Rightarrow> mpm \<Rightarrow> fault + mpm" where
  "p2g_particle svd p s =
     (if is_used s p \<noteq> 0 then
        (let base = base_of (x_p s p);
             fx = fx_of (x_p s p);
             w = p2g_weights fx
         in case constitutive svd (materials s p) (C_p s p) (F_p s p) (Jp s p) of
              Inl e \<Rightarrow> Inl e
            | Inr (F', jp', affine) \<Rightarrow>
                foldE (scatter_node base fx w (v_p s p) affine) offsets
                  (s\<lparr>F_p := (F_p s)(p := F'), Jp := (Jp s)(p := jp')\<rparr>))
      else Inr s)"

definition substep_p2g :: "svd_fun \<Rightarrow> mpm \<Rightarrow> fault + mpm" where
  "substep_p2g svd s = foldE (p2g_particle svd) [0..<n_particles] s"

section \<open>Grid to particle\<close>

text \<open>Lines 131-137: the gather from one of the 27 neighbours, on \<open>(new_v, new_C)\<close>.\<close>

definition gather_node :: "mpm \<Rightarrow> ivec3 \<Rightarrow> vec3 \<Rightarrow> vec3 list \<Rightarrow> nat \<times> nat \<times> nat \<Rightarrow> vec3 \<times> mat3 \<Rightarrow> fault + vec3 \<times> mat3" where
  "gather_node s base fx w off acc =
     (case acc of (new_v, new_C) \<Rightarrow>
        let dpos = vsub (offset_float off) fx;
            pos = ivadd base (offset_int off)
        in if in_grid pos
           then (let g_v = grid_v s pos;
                     weight = weight_of w off
                 in Inr (vadd new_v (smul weight g_v),
                         madd new_C (msmul (4 * inv_dx * weight) (outer_product g_v dpos))))
           else Inl OutOfBounds)"

definition g2p_particle :: "nat \<Rightarrow> mpm \<Rightarrow> fault + mpm" where
  "g2p_particle p s =
     (if is_used s p \<noteq> 0 then
        (let base = base_of (x_p s p);
             fx = fx_of (x_p s p);
             w = g2p_weights fx
         in case foldE (gather_node s base fx w) offsets (vzero, mzero) of
              Inl e \<Rightarrow> Inl e
            | Inr (new_v, new_C) \<Rightarrow>
                Inr (s\<lparr>v_p := (v_p s)(p := new_v),
                       C_p := (C_p s)(p := new_C),
                       x_p := (x_p s)(p := vadd (x_p s p) (smul dt new_v)),
                       Jp := (Jp s)(p := fmul (Jp s p) (Some (1 + dt * mtrace new_C)))\<rparr>))
      else Inr s)"

definition substep_g2p :: "mpm \<Rightarrow> fault + mpm" where
  "substep_g2p s = foldE g2p_particle [0..<n_particles] s"

section \<open>The substep loop\<close>

text \<open>Lines 330-334 of \<^verbatim>\<open>main\<close>.\<close>

definition substep :: "svd_fun \<Rightarrow> real \<Rightarrow> mpm \<Rightarrow> fault + mpm" where
  "substep svd gravity s =
     (case substep_p2g svd (substep_zero_out s) of
        Inl e \<Rightarrow> Inl e
      | Inr s1 \<Rightarrow>
          (case substep_grid gravity s1 of
             Inl e \<Rightarrow> Inl e
           | Inr s2 \<Rightarrow> substep_g2p s2))"


section \<open>Initialisation\<close>

text \<open>
  \<^verbatim>\<open>init_vols\<close> and \<^verbatim>\<open>CubeVolume\<close> run in the Python scope, where the volumes and the
  shares are float64 numbers and a particle count is the truncation of one: here a
  rounding error can move an integer. Every float64 operation returns the rounding
  of its exact result; the rounding \<open>fl\<close> is a parameter of the model, as the
  decomposition is. Overflow and underflow are left out.

  The entries of the list given to \<^verbatim>\<open>init_vols\<close> are Python objects: a
  \<^verbatim>\<open>CubeVolume\<close> (minimum, size, material), whose attribute \<^verbatim>\<open>volume\<close> is the product
  of the sizes (line 150), or another object, which may or may not have an attribute
  \<^verbatim>\<open>volume\<close>.
\<close>

datatype vol = CubeVolume vec3 vec3 int | OtherObject "real option"

definition cube_volume :: "(real \<Rightarrow> real) \<Rightarrow> vec3 \<Rightarrow> real" where
  "cube_volume fl sizes = fl (fl (vget sizes 0 * vget sizes 1) * vget sizes 2)"

fun volume :: "(real \<Rightarrow> real) \<Rightarrow> vol \<Rightarrow> real option" where
  "volume fl (CubeVolume minimum sizes material) = Some (cube_volume fl sizes)"
| "volume fl (OtherObject a) = a"

definition sentinel :: vec3 where
  "sentinel = (533799.0, 533799.0, 533799.0)"

definition set_all_unused :: "mpm \<Rightarrow> mpm" where
  "set_all_unused s =
     s\<lparr>is_used := (\<lambda>p. if p < n_particles then 0 else is_used s p),
       x_p := (\<lambda>p. if p < n_particles then sentinel else x_p s p),
       Jp := (\<lambda>p. if p < n_particles then Some 1 else Jp s p),
       F_p := (\<lambda>p. if p < n_particles then mident else F_p s p),
       C_p := (\<lambda>p. if p < n_particles then mzero else C_p s p),
       v_p := (\<lambda>p. if p < n_particles then vzero else v_p s p)\<rparr>"

text \<open>
  \<^verbatim>\<open>init_cube_vol\<close>. The draws of \<^verbatim>\<open>ti.random()\<close> for particle \<open>i\<close> are \<open>rnd i\<close>: three
  for the position and four for the colour. A range that is not empty and leaves
  \<open>[0, n_particles)\<close> addresses the fields outside their shape.
\<close>

definition in_range :: "int \<Rightarrow> int \<Rightarrow> nat \<Rightarrow> bool" where
  "in_range first_par last_par i = (first_par \<le> int i \<and> int i < last_par)"

definition init_cube_vol :: "(nat \<Rightarrow> vec3 \<times> vec4) \<Rightarrow> int \<Rightarrow> int \<Rightarrow> real \<Rightarrow> real \<Rightarrow> real \<Rightarrow> real \<Rightarrow> real \<Rightarrow> real \<Rightarrow> int \<Rightarrow> mpm \<Rightarrow> fault + mpm" where
  "init_cube_vol rnd first_par last_par x_begin y_begin z_begin x_size y_size z_size material s =
     (if first_par < last_par \<and> (first_par < 0 \<or> int n_particles < last_par) then Inl OutOfBounds
      else Inr (s\<lparr>x_p := (\<lambda>i. if in_range first_par last_par i
                              then vadd (vmul (fst (rnd i)) (x_size, y_size, z_size)) (x_begin, y_begin, z_begin)
                              else x_p s i),
                  Jp := (\<lambda>i. if in_range first_par last_par i then Some 1 else Jp s i),
                  F_p := (\<lambda>i. if in_range first_par last_par i then mident else F_p s i),
                  v_p := (\<lambda>i. if in_range first_par last_par i then vzero else v_p s i),
                  materials := (\<lambda>i. if in_range first_par last_par i then material else materials s i),
                  colors_random := (\<lambda>i. if in_range first_par last_par i then snd (rnd i) else colors_random s i),
                  is_used := (\<lambda>i. if in_range first_par last_par i then 1 else is_used s i)\<rparr>))"

text \<open>Lines 186-188: the sum of the attributes \<^verbatim>\<open>volume\<close>.\<close>

fun sum_volumes :: "(real \<Rightarrow> real) \<Rightarrow> real \<Rightarrow> vol list \<Rightarrow> fault + real" where
  "sum_volumes fl total_vol [] = Inr total_vol"
| "sum_volumes fl total_vol (v # vs) =
     (case volume fl v of
        None \<Rightarrow> Inl AttributeError
      | Some a \<Rightarrow> sum_volumes fl (fl (total_vol + a)) vs)"

text \<open>
  Lines 194-198: the particle count of the cuboid of volume \<open>a\<close> at position \<open>i\<close> of a
  list of length \<open>len\<close>. The quotient and the product are rounded, and \<^verbatim>\<open>int\<close>
  truncates the product toward zero. With a total of zero the quotient is a NaN or an
  infinity, and \<^verbatim>\<open>int\<close> raises \<^verbatim>\<open>ValueError\<close> or \<^verbatim>\<open>OverflowError\<close>; line 194 runs
  for the last cuboid too.
\<close>

definition par_count_of :: "(real \<Rightarrow> real) \<Rightarrow> real \<Rightarrow> nat \<Rightarrow> nat \<Rightarrow> int \<Rightarrow> real \<Rightarrow> fault + int" where
  "par_count_of fl total_vol len i next_p a =
     (if total_vol = 0 then Inl (if a = 0 then ValueError else OverflowError)
      else Inr (if int i = int len - 1 then int n_particles - next_p
                else cast_int (fl (fl (a / total_vol) * real n_particles))))"

text \<open>
  Lines 191-203. An exception leaves the fields as they are when it is raised, so
  the loop returns the state together with the error, if any. The draws of the
  \<open>i\<close>-th launch of \<^verbatim>\<open>init_cube_vol\<close> are \<open>rnd i\<close>.
\<close>

fun init_loop :: "(real \<Rightarrow> real) \<Rightarrow> (nat \<Rightarrow> nat \<Rightarrow> vec3 \<times> vec4) \<Rightarrow> real \<Rightarrow> nat \<Rightarrow> nat \<Rightarrow> int \<Rightarrow> vol list \<Rightarrow> mpm \<Rightarrow> fault option \<times> mpm" where
  "init_loop fl rnd total_vol len i next_p [] s = (None, s)"
| "init_loop fl rnd total_vol len i next_p (CubeVolume minimum sizes material # vs) s =
     (case par_count_of fl total_vol len i next_p (cube_volume fl sizes) of
        Inl e \<Rightarrow> (Some e, s)
      | Inr par_count \<Rightarrow>
          (case init_cube_vol (rnd i) next_p (next_p + par_count)
                  (vget minimum 0) (vget minimum 1) (vget minimum 2)
                  (vget sizes 0) (vget sizes 1) (vget sizes 2) material s of
             Inl e \<Rightarrow> (Some e, s)
           | Inr s' \<Rightarrow> init_loop fl rnd total_vol len (Suc i) (next_p + par_count) vs s'))"
| "init_loop fl rnd total_vol len i next_p (OtherObject a # vs) s = (Some (Exception ''???''), s)"

definition init_vols :: "(real \<Rightarrow> real) \<Rightarrow> (nat \<Rightarrow> nat \<Rightarrow> vec3 \<times> vec4) \<Rightarrow> vol list \<Rightarrow> mpm \<Rightarrow> fault option \<times> mpm" where
  "init_vols fl rnd vols s =
     (let s0 = set_all_unused s
      in case sum_volumes fl 0 vols of
           Inl e \<Rightarrow> (Some e, s0)
         | Inr total_vol \<Rightarrow> init_loop fl rnd total_vol (length vols) 0 0 vols s0)"

text \<open>
  The arguments \<open>(first_par, last_par)\<close> of the successive launches of
  \<^verbatim>\<open>init_cube_vol\<close> in the loop of lines 191-203, up to the first error.
\<close>

fun init_ranges :: "(real \<Rightarrow> real) \<Rightarrow> real \<Rightarrow> nat \<Rightarrow> nat \<Rightarrow> int \<Rightarrow> vol list \<Rightarrow> (int \<times> int) list" where
  "init_ranges fl total_vol len i next_p [] = []"
| "init_ranges fl total_vol len i next_p (CubeVolume minimum sizes material # vs) =
     (case par_count_of fl total_vol len i next_p (cube_volume fl sizes) of
        Inl e \<Rightarrow> []
      | Inr par_count \<Rightarrow>
          (next_p, next_p + par_count) # init_ranges fl total_vol len (Suc i) (next_p + par_count) vs)"
| "init_ranges fl total_vol len i next_p (OtherObject a # vs) = []"

section \<open>Properties and example states\<close>

text \<open>
  No component of the velocity \<open>u\<close> of node \<open>I\<close> points out of the domain where the
  kernel tests it: on each axis, below index \<open>bound\<close> and above index
  \<open>n_grid - bound\<close>.
\<close>

definition contained :: "ivec3 \<Rightarrow> vec3 \<Rightarrow> bool" where
  "contained I u =
     (\<forall>d \<in> {0, 1, 2}. (vget I d < bound \<longrightarrow> 0 \<le> vget u d) \<and> (n_grid - bound < vget I d \<longrightarrow> vget u d \<le> 0))"

text \<open>The velocity of node \<open>I\<close> after the momentum step.\<close>

definition grid_v_after :: "real \<Rightarrow> mpm \<Rightarrow> ivec3 \<Rightarrow> fault + vec3" where
  "grid_v_after gravity s I =
     (case substep_grid gravity s of Inl e \<Rightarrow> Inl e | Inr s' \<Rightarrow> Inr (grid_v s' I))"

text \<open>A state with no active particle and an empty grid.\<close>

definition blank_state :: mpm where
  "blank_state =
     \<lparr>x_p = (\<lambda>p. sentinel), v_p = (\<lambda>p. vzero), C_p = (\<lambda>p. mzero), F_p = (\<lambda>p. mident),
      Jp = (\<lambda>p. Some 1), grid_v = (\<lambda>I. vzero), grid_m = (\<lambda>I. 0), materials = (\<lambda>p. WATER),
      is_used = (\<lambda>p. 0), colors_random = (\<lambda>p. (0, 0, 0, 0))\<rparr>"

text \<open>A grid whose nodes all have mass 1 and momentum 1 along the first axis.\<close>

definition moving_grid :: mpm where
  "moving_grid = blank_state\<lparr>grid_v := (\<lambda>I. (1, 0, 0)), grid_m := (\<lambda>I. 1)\<rparr>"

text \<open>The 27 nodes that a particle at position \<open>xp\<close> addresses lie in the grid.\<close>

definition neighbours_in_grid :: "vec3 \<Rightarrow> bool" where
  "neighbours_in_grid xp = list_all (\<lambda>off. in_grid (ivadd (base_of xp) (offset_int off))) offsets"

text \<open>
  Every active particle addresses the grid inside its shape, and its \<^verbatim>\<open>Jp\<close> is a
  number unless the particle is jelly, whose stress does not read it.
\<close>

definition p2g_ready :: "mpm \<Rightarrow> bool" where
  "p2g_ready s =
     (\<forall>p < n_particles. is_used s p \<noteq> 0 \<longrightarrow>
        neighbours_in_grid (x_p s p) \<and> (materials s p = JELLY \<or> Jp s p \<noteq> None))"

definition g2p_ready :: "mpm \<Rightarrow> bool" where
  "g2p_ready s = (\<forall>p < n_particles. is_used s p \<noteq> 0 \<longrightarrow> neighbours_in_grid (x_p s p))"

text \<open>
  The clamp of the specification, \<open>clamp(x, lo, hi)\<close>, and the two bounds of the snow
  plasticity.
\<close>

definition spec_clamp :: "real \<Rightarrow> real \<Rightarrow> real \<Rightarrow> real" where
  "spec_clamp x lo hi = (if x < lo then lo else if hi < x then hi else x)"

definition snow_clamp :: "real \<Rightarrow> real" where
  "snow_clamp x = spec_clamp x (1 - 0.025) (1 + 0.0045)"

text \<open>The three singular values in the diagonal of \<open>sig\<close> replaced.\<close>

definition with_diagonal :: "mat3 \<Rightarrow> real \<Rightarrow> real \<Rightarrow> real \<Rightarrow> mat3" where
  "with_diagonal sig a b c = mset (mset (mset sig 0 0 a) 1 1 b) 2 2 c"

text \<open>The elastic predictor of line 64.\<close>

definition predicted_F :: "mpm \<Rightarrow> nat \<Rightarrow> mat3" where
  "predicted_F s p = mmul (madd mident (msmul dt (C_p s p))) (F_p s p)"

text \<open>
  A decomposition for the examples: for a diagonal matrix without negative entries,
  \<open>(I, F, I)\<close> is a singular value decomposition.
\<close>

definition svd_diag :: svd_fun where
  "svd_diag A = (mident, A, mident)"

definition is_svd :: "mat3 \<Rightarrow> mat3 \<times> mat3 \<times> mat3 \<Rightarrow> bool" where
  "is_svd A r =
     (case r of (U, sig, V) \<Rightarrow>
        mmul (mmul U sig) (mtranspose V) = A \<and>
        mmul U (mtranspose U) = mident \<and> mmul V (mtranspose V) = mident \<and>
        sig = with_diagonal mzero (mget sig 0 0) (mget sig 1 1) (mget sig 2 2) \<and>
        0 \<le> mget sig 0 0 \<and> 0 \<le> mget sig 1 1 \<and> 0 \<le> mget sig 2 2)"

text \<open>What a particle holds after a kernel.\<close>

definition Jp_after_p2g :: "svd_fun \<Rightarrow> mpm \<Rightarrow> nat \<Rightarrow> fault + real option" where
  "Jp_after_p2g svd s p = (case substep_p2g svd s of Inl e \<Rightarrow> Inl e | Inr s' \<Rightarrow> Inr (Jp s' p))"

definition x_after_g2p :: "mpm \<Rightarrow> nat \<Rightarrow> fault + vec3" where
  "x_after_g2p s p = (case substep_g2p s of Inl e \<Rightarrow> Inl e | Inr s' \<Rightarrow> Inr (x_p s' p))"

text \<open>
  One active particle in the middle of the domain, at rest and undeformed, of the
  given material.
\<close>

definition one_particle :: "int \<Rightarrow> mpm" where
  "one_particle material =
     blank_state\<lparr>is_used := (\<lambda>p. if p = 0 then 1 else 0),
                 x_p := (\<lambda>p. if p = 0 then (0.5, 0.5, 0.5) else sentinel),
                 materials := (\<lambda>p. material)\<rparr>"

text \<open>A snow particle compressed to 0.9 on the first axis and stretched to 1.1 on the third.\<close>

definition squeezed_snow :: mpm where
  "squeezed_snow = (one_particle SNOW)\<lparr>F_p := (\<lambda>p. ((0.9, 0, 0), (0, 1, 0), (0, 0, 1.1)))\<rparr>"

text \<open>
  A jelly particle whose velocity gradient collapses it within one step: \<open>I + dt * C\<close>
  is the zero matrix.
\<close>

definition collapsing_jelly :: mpm where
  "collapsing_jelly =
     (one_particle JELLY)\<lparr>C_p := (\<lambda>p. ((- 10000, 0, 0), (0, - 10000, 0), (0, 0, - 10000)))\<rparr>"

text \<open>The particle in a grid whose nodes all move with velocity 10000 along the first axis.\<close>

definition fast_grid :: mpm where
  "fast_grid = (one_particle WATER)\<lparr>grid_v := (\<lambda>I. (10000, 0, 0)), grid_m := (\<lambda>I. 1)\<rparr>"

text \<open>The mass on the grid, and the number of active particles.\<close>

definition total_mass :: "mpm \<Rightarrow> real" where
  "total_mass s = sum_list (map (grid_m s) grid_nodes)"

definition active_count :: "mpm \<Rightarrow> nat" where
  "active_count s = length (filter (\<lambda>p. is_used s p \<noteq> 0) [0..<n_particles])"

text \<open>
  Lists of volume specifications: supported shapes, the volume attributes, their
  exact sum, and the total that lines 186-188 compute in float64.
\<close>

fun is_cube :: "vol \<Rightarrow> bool" where
  "is_cube (CubeVolume minimum sizes material) = True"
| "is_cube (OtherObject a) = False"

definition all_cubes :: "vol list \<Rightarrow> bool" where
  "all_cubes vols = list_all is_cube vols"

definition vol_of :: "(real \<Rightarrow> real) \<Rightarrow> vol \<Rightarrow> real" where
  "vol_of fl v = (case volume fl v of None \<Rightarrow> 0 | Some a \<Rightarrow> a)"

definition exact_sum :: "(real \<Rightarrow> real) \<Rightarrow> vol list \<Rightarrow> real" where
  "exact_sum fl vols = sum_list (map (vol_of fl) vols)"

definition total_of :: "(real \<Rightarrow> real) \<Rightarrow> vol list \<Rightarrow> real" where
  "total_of fl vols = foldl (\<lambda>total_vol v. fl (total_vol + vol_of fl v)) 0 vols"

definition nonneg_volumes :: "(real \<Rightarrow> real) \<Rightarrow> vol list \<Rightarrow> bool" where
  "nonneg_volumes fl vols = list_all (\<lambda>v. 0 \<le> vol_of fl v) vols"

definition has_volumes :: "vol list \<Rightarrow> bool" where
  "has_volumes vols = list_all (\<lambda>v. v \<noteq> OtherObject None) vols"

text \<open>
  The rounding \<open>fl\<close> has a relative error of at most \<open>eps\<close>. Rounding to the nearest
  float64 has the relative error \<open>1 / 2 ^ 53\<close> at most, on every number that neither
  overflows nor underflows.
\<close>

definition rounds_within :: "(real \<Rightarrow> real) \<Rightarrow> real \<Rightarrow> bool" where
  "rounds_within fl eps = (\<forall>x. \<bar>fl x - x\<bar> \<le> eps * \<bar>x\<bar>)"

definition unit_roundoff :: real where
  "unit_roundoff = 1 / 2 ^ 53"

text \<open>
  The rounding of the examples: on a result that is a float64 number, every rounding
  is the identity. The volumes, totals, quotients and products of the example lists
  below are integers or halves of integers below \<open>2 ^ 20\<close>, which are float64 numbers.
\<close>

definition no_rounding :: "real \<Rightarrow> real" where
  "no_rounding x = x"

text \<open>
  The ranges \<open>rs\<close> follow one another from \<open>a\<close> to \<open>b\<close>: each starts where the one
  before it ends, and none has a negative length.
\<close>

fun chain :: "int \<Rightarrow> (int \<times> int) list \<Rightarrow> int \<Rightarrow> bool" where
  "chain a [] b = (a = b)"
| "chain a ((first_par, last_par) # rs) b = (first_par = a \<and> a \<le> last_par \<and> chain last_par rs b)"

text \<open>Draws that are all zero.\<close>

definition no_draws :: "nat \<Rightarrow> nat \<Rightarrow> vec3 \<times> vec4" where
  "no_draws k i = ((0, 0, 0), (0, 0, 0, 0))"

text \<open>Two unit cubes of water and snow.\<close>

definition two_cubes :: "vol list" where
  "two_cubes = [CubeVolume (0, 0, 0) (1, 1, 1) WATER, CubeVolume (0, 0, 0) (1, 1, 1) SNOW]"


text \<open>Three cuboids of volumes 2, -1 and 1: the total is positive, one extent is negative.\<close>

definition inverted_cube :: "vol list" where
  "inverted_cube = [CubeVolume (0, 0, 0) (1, 1, 2) WATER, CubeVolume (0, 0, 0) (- 1, 1, 1) JELLY,
                    CubeVolume (0, 0, 0) (1, 1, 1) SNOW]"

text \<open>
  Two cuboids whose extents along \<open>x\<close> are the float64 numbers nearest to 0.45 and to
  0.126. Two results of \<^verbatim>\<open>init_vols\<close> on this list are no float64 numbers, the total
  of the volumes and the quotient of the first volume by the total;
  \<open>rounding_of_example\<close> maps each of them to the float64 number nearest to it.
\<close>

definition float_cubes :: "vol list" where
  "float_cubes = [CubeVolume (0, 0, 0) (8106479329266893 / 2 ^ 54, 1, 1) WATER,
                  CubeVolume (0, 0, 0) (1134907106097365 / 2 ^ 53, 1, 1) SNOW]"

definition rounding_of_example :: "real \<Rightarrow> real" where
  "rounding_of_example x =
     (if x = 10376293541461623 / 2 ^ 54 then 1297036692682703 / 2 ^ 51
      else if x = 8106479329266893 / 10376293541461624 then 7036874417766399 / 2 ^ 53
      else x)"

text \<open>The ranges of particle indices that \<^verbatim>\<open>init_vols\<close> hands to its launches.\<close>

definition vol_ranges :: "(real \<Rightarrow> real) \<Rightarrow> vol list \<Rightarrow> (int \<times> int) list" where
  "vol_ranges fl vols = init_ranges fl (total_of fl vols) (length vols) 0 0 vols"

section \<open>Sequential loops that may fault\<close>

lemma foldE_append:
  "foldE f (xs @ ys) s = (case foldE f xs s of Inl e \<Rightarrow> Inl e | Inr s' \<Rightarrow> foldE f ys s')"
  by (induction xs arbitrary: s) (auto split: sum.splits)

lemma foldE_inv:
  assumes "foldE f xs s = Inr s'" and "P s"
    and "\<And>i t t'. i \<in> set xs \<Longrightarrow> P t \<Longrightarrow> f i t = Inr t' \<Longrightarrow> P t'"
  shows "P s'"
  using assms
proof (induction xs arbitrary: s)
  case Nil
  then show ?case by simp
next
  case (Cons i xs)
  from Cons.prems(1) obtain t where t: "f i s = Inr t" and r: "foldE f xs t = Inr s'"
    by (auto split: sum.splits)
  have "P t" using Cons.prems(3)[of i s t] Cons.prems(2) t by simp
  show ?case
    by (rule Cons.IH[OF r \<open>P t\<close>]) (use Cons.prems(3) in auto)
qed

lemma foldE_total:
  assumes "Q s"
    and "\<And>i t. i \<in> set xs \<Longrightarrow> Q t \<Longrightarrow> \<exists>t'. f i t = Inr t' \<and> Q t'"
  shows "\<exists>s'. foldE f xs s = Inr s' \<and> Q s'"
  using assms
proof (induction xs arbitrary: s)
  case Nil
  then show ?case by simp
next
  case (Cons i xs)
  from Cons.prems(2)[of i s] Cons.prems(1) obtain t where t: "f i s = Inr t" "Q t"
    by auto
  have "\<exists>s'. foldE f xs t = Inr s' \<and> Q s'"
    using Cons.IH[OF t(2)] Cons.prems(2) by simp
  then show ?case using t by simp
qed

lemma foldE_split:
  assumes "foldE f xs s = Inr s'" and "p \<in> set xs" and "distinct xs"
  obtains pre post s1 s2 where "xs = pre @ p # post" and "p \<notin> set pre" and "p \<notin> set post"
    and "foldE f pre s = Inr s1" and "f p s1 = Inr s2" and "foldE f post s2 = Inr s'"
proof -
  from assms(2) obtain pre post where xs: "xs = pre @ p # post"
    by (auto dest: split_list)
  with assms(3) have np: "p \<notin> set pre" "p \<notin> set post" by auto
  from assms(1) xs obtain s1 where s1: "foldE f pre s = Inr s1" and r: "foldE f (p # post) s1 = Inr s'"
    by (auto simp: foldE_append split: sum.splits)
  from r obtain s2 where "f p s1 = Inr s2" "foldE f post s2 = Inr s'"
    by (auto split: sum.splits)
  with xs np s1 show ?thesis using that by blast
qed

section \<open>The momentum step in closed form\<close>

lemma set_grid_nodes: "set grid_nodes = {I. in_grid I}"
  by (auto simp: grid_nodes_def)

lemma distinct_grid_nodes: "distinct grid_nodes"
  by (simp add: grid_nodes_def distinct_product)

lemma grid_node_Inr:
  "grid_node g I m mv = Inr (if m > 0 then grid_boundary g I (smul (1 / m) mv) else mv)"
  by (simp add: grid_node_def fdiv_def)

lemma foldE_grid_step:
  "distinct xs \<Longrightarrow>
   foldE (grid_step g) xs s =
     Inr (s\<lparr>grid_v := (\<lambda>I. if I \<in> set xs
                             then (if grid_m s I > 0 then grid_boundary g I (smul (1 / grid_m s I) (grid_v s I)) else grid_v s I)
                             else grid_v s I)\<rparr>)"
proof (induction xs arbitrary: s)
  case Nil
  then show ?case by simp
next
  case (Cons I xs)
  then show ?case
    by (auto simp: grid_step_def grid_node_Inr fun_eq_iff intro!: arg_cong[where f="\<lambda>f. s\<lparr>grid_v := f\<rparr>"])
qed

lemma substep_grid_eq:
  "substep_grid g s =
     Inr (s\<lparr>grid_v := (\<lambda>I. if in_grid I
                             then (if grid_m s I > 0 then grid_boundary g I (smul (1 / grid_m s I) (grid_v s I)) else grid_v s I)
                             else grid_v s I)\<rparr>)"
  by (simp add: substep_grid_def foldE_grid_step distinct_grid_nodes set_grid_nodes)

lemma grid_boundary_eq:
  "grid_boundary g (i, j, k) (a, b, c) =
     (let a1 = (if i < bound \<and> a < 0 then 0 else a);
          a2 = (if i > n_grid - bound \<and> a1 > 0 then 0 else a1);
          b0 = b + dt * g;
          b1 = (if j < bound \<and> b0 < 0 then 0 else b0);
          b2 = (if j > n_grid - bound \<and> b1 > 0 then 0 else b1);
          c1 = (if k < bound \<and> c < 0 then 0 else c);
          c2 = (if k > n_grid - bound \<and> c1 > 0 then 0 else c1)
      in (a2, b2, c2))"
proof -
  define a1 where "a1 = (if i < bound \<and> a < 0 then 0 else a)"
  define a2 where "a2 = (if i > n_grid - bound \<and> a1 > 0 then 0 else a1)"
  define b0 where "b0 = b + dt * g"
  define b1 where "b1 = (if j < bound \<and> b0 < 0 then 0 else b0)"
  define b2 where "b2 = (if j > n_grid - bound \<and> b1 > 0 then 0 else b1)"
  define c1 where "c1 = (if k < bound \<and> c < 0 then 0 else c)"
  define c2 where "c2 = (if k > n_grid - bound \<and> c1 > 0 then 0 else c1)"
  define I :: ivec3 where "I = (i, j, k)"
  define u1 where "u1 = vset (a, b, c) 1 (vget (a, b, c) 1 + dt * g)"
  define u2 where "u2 = (if vget I 0 < bound \<and> vget u1 0 < 0 then vset u1 0 0 else u1)"
  define u3 where "u3 = (if vget I 0 > n_grid - bound \<and> vget u2 0 > 0 then vset u2 0 0 else u2)"
  define u4 where "u4 = (if vget I 1 < bound \<and> vget u3 1 < 0 then vset u3 1 0 else u3)"
  define u5 where "u5 = (if vget I 1 > n_grid - bound \<and> vget u4 1 > 0 then vset u4 1 0 else u4)"
  define u6 where "u6 = (if vget I 2 < bound \<and> vget u5 2 < 0 then vset u5 2 0 else u5)"
  define u7 where "u7 = (if vget I 2 > n_grid - bound \<and> vget u6 2 > 0 then vset u6 2 0 else u6)"
  have e1: "u1 = (a, b0, c)" by (simp add: u1_def b0_def)
  have e2: "u2 = (a1, b0, c)" by (simp add: u2_def e1 a1_def I_def)
  have e3: "u3 = (a2, b0, c)" by (simp add: u3_def e2 a2_def I_def)
  have e4: "u4 = (a2, b1, c)" by (simp add: u4_def e3 b1_def I_def)
  have e5: "u5 = (a2, b2, c)" by (simp add: u5_def e4 b2_def I_def)
  have e6: "u6 = (a2, b2, c1)" by (simp add: u6_def e5 c1_def I_def)
  have e7: "u7 = (a2, b2, c2)" by (simp add: u7_def e6 c2_def I_def)
  have "grid_boundary g (i, j, k) (a, b, c) = u7"
    unfolding grid_boundary_def Let_def u7_def u6_def u5_def u4_def u3_def u2_def u1_def I_def
    by (rule refl)
  also have "\<dots> = (a2, b2, c2)" by (rule e7)
  finally show ?thesis
    unfolding Let_def a1_def a2_def b0_def b1_def b2_def c1_def c2_def .
qed

lemma clamp_pair:
  fixes a :: real
  shows "(P \<longrightarrow> 0 \<le> (if Q \<and> (if P \<and> a < 0 then 0 else a) > 0 then 0 else (if P \<and> a < 0 then 0 else a)))
       \<and> (Q \<longrightarrow> (if Q \<and> (if P \<and> a < 0 then 0 else a) > 0 then 0 else (if P \<and> a < 0 then 0 else a)) \<le> 0)"
  by auto

lemma contained_boundary: "contained I (grid_boundary g I u)"
proof -
  obtain i j k where I: "I = (i, j, k)" by (cases I) auto
  obtain a b c where u: "u = (a, b, c)" by (cases u) auto
  show ?thesis
    unfolding I u grid_boundary_eq Let_def contained_def
    using clamp_pair[of "i < bound" "n_grid - bound < i" a]
      clamp_pair[of "j < bound" "n_grid - bound < j" "b + dt * g"]
      clamp_pair[of "k < bound" "n_grid - bound < k" c]
    by simp
qed

section \<open>Particle to grid: what a particle's iteration reads and writes\<close>

text \<open>The scatter writes the grid only.\<close>

lemma scatter_node_fields:
  assumes "scatter_node base fx w vp affine off s = Inr s'"
  shows "x_p s' = x_p s \<and> v_p s' = v_p s \<and> C_p s' = C_p s \<and> F_p s' = F_p s \<and> Jp s' = Jp s \<and>
         materials s' = materials s \<and> is_used s' = is_used s \<and> colors_random s' = colors_random s"
  using assms by (auto simp: scatter_node_def Let_def split: if_splits)

lemma scatter_fold_fields:
  assumes "foldE (scatter_node base fx w vp affine) offs s = Inr s'"
  shows "x_p s' = x_p s \<and> v_p s' = v_p s \<and> C_p s' = C_p s \<and> F_p s' = F_p s \<and> Jp s' = Jp s \<and>
         materials s' = materials s \<and> is_used s' = is_used s \<and> colors_random s' = colors_random s"
  by (rule foldE_inv[OF assms, where P = "\<lambda>t. x_p t = x_p s \<and> v_p t = v_p s \<and> C_p t = C_p s \<and> F_p t = F_p s \<and> Jp t = Jp s \<and>
         materials t = materials s \<and> is_used t = is_used s \<and> colors_random t = colors_random s"])
     (auto dest: scatter_node_fields)

lemma p2g_particle_fields:
  assumes "p2g_particle svd q s = Inr s'"
  shows "x_p s' = x_p s \<and> v_p s' = v_p s \<and> C_p s' = C_p s \<and>
         materials s' = materials s \<and> is_used s' = is_used s \<and> colors_random s' = colors_random s \<and>
         (\<forall>p. p \<noteq> q \<longrightarrow> F_p s' p = F_p s p \<and> Jp s' p = Jp s p)"
proof (cases "is_used s q \<noteq> 0")
  case False
  with assms show ?thesis by (simp add: p2g_particle_def)
next
  case True
  with assms obtain F' jp' affine where
    c: "constitutive svd (materials s q) (C_p s q) (F_p s q) (Jp s q) = Inr (F', jp', affine)"
    and f: "foldE (scatter_node (base_of (x_p s q)) (fx_of (x_p s q)) (p2g_weights (fx_of (x_p s q))) (v_p s q) affine)
              offsets (s\<lparr>F_p := (F_p s)(q := F'), Jp := (Jp s)(q := jp')\<rparr>) = Inr s'"
    by (auto simp: p2g_particle_def Let_def split: sum.splits)
  from scatter_fold_fields[OF f] show ?thesis by simp
qed

lemma p2g_particle_self:
  assumes "p2g_particle svd p s = Inr s'"
  shows "if is_used s p \<noteq> 0
         then (\<exists>affine. constitutive svd (materials s p) (C_p s p) (F_p s p) (Jp s p) = Inr (F_p s' p, Jp s' p, affine))
         else s' = s"
proof (cases "is_used s p \<noteq> 0")
  case False
  with assms show ?thesis by (simp add: p2g_particle_def)
next
  case True
  with assms obtain F' jp' affine where
    c: "constitutive svd (materials s p) (C_p s p) (F_p s p) (Jp s p) = Inr (F', jp', affine)"
    and f: "foldE (scatter_node (base_of (x_p s p)) (fx_of (x_p s p)) (p2g_weights (fx_of (x_p s p))) (v_p s p) affine)
              offsets (s\<lparr>F_p := (F_p s)(p := F'), Jp := (Jp s)(p := jp')\<rparr>) = Inr s'"
    by (auto simp: p2g_particle_def Let_def split: sum.splits)
  from scatter_fold_fields[OF f] have "F_p s' p = F'" "Jp s' p = jp'" by simp_all
  with c True show ?thesis by (simp del: split_paired_Ex)
qed

text \<open>Particles other than \<open>p\<close> leave the fields of \<open>p\<close> as they are.\<close>

lemma p2g_fold_others:
  assumes "foldE (p2g_particle svd) ps s = Inr s'"
  shows "x_p s' = x_p s \<and> v_p s' = v_p s \<and> C_p s' = C_p s \<and>
         materials s' = materials s \<and> is_used s' = is_used s \<and> colors_random s' = colors_random s \<and>
         (\<forall>p. p \<notin> set ps \<longrightarrow> F_p s' p = F_p s p \<and> Jp s' p = Jp s p)"
  by (rule foldE_inv[OF assms, where P = "\<lambda>t. x_p t = x_p s \<and> v_p t = v_p s \<and> C_p t = C_p s \<and>
         materials t = materials s \<and> is_used t = is_used s \<and> colors_random t = colors_random s \<and>
         (\<forall>p. p \<notin> set ps \<longrightarrow> F_p t p = F_p s p \<and> Jp t p = Jp s p)"])
     (use p2g_particle_fields in \<open>simp, metis\<close>)

lemma p2g_fold_self:
  assumes "foldE (p2g_particle svd) ps s = Inr s'" and "p \<in> set ps" and "distinct ps"
    and "is_used s p \<noteq> 0"
  shows "\<exists>affine. constitutive svd (materials s p) (C_p s p) (F_p s p) (Jp s p) = Inr (F_p s' p, Jp s' p, affine)"
proof -
  from assms(1-3) obtain pre post s1 s2 where
    "p \<notin> set pre" "p \<notin> set post" and pre: "foldE (p2g_particle svd) pre s = Inr s1"
    and st: "p2g_particle svd p s1 = Inr s2" and post: "foldE (p2g_particle svd) post s2 = Inr s'"
    by (rule foldE_split)
  note a = p2g_fold_others[OF pre] and b = p2g_particle_self[OF st] and c = p2g_fold_others[OF post]
  from a \<open>p \<notin> set pre\<close> have v: "is_used s1 p = is_used s p" "materials s1 p = materials s p"
    "C_p s1 p = C_p s p" "F_p s1 p = F_p s p" "Jp s1 p = Jp s p" by simp_all
  from c \<open>p \<notin> set post\<close> have w: "F_p s' p = F_p s2 p" "Jp s' p = Jp s2 p" by simp_all
  from b assms(4) show ?thesis by (simp add: v w)
qed

lemma substep_p2g_particle:
  assumes "substep_p2g svd s = Inr s'" and "p < n_particles" and "is_used s p \<noteq> 0"
  shows "\<exists>affine. constitutive svd (materials s p) (C_p s p) (F_p s p) (Jp s p) = Inr (F_p s' p, Jp s' p, affine)"
  using assms p2g_fold_self[of svd "[0..<n_particles]" s s' p] by (simp add: substep_p2g_def)

lemma substep_p2g_fields:
  assumes "substep_p2g svd s = Inr s'"
  shows "x_p s' = x_p s \<and> v_p s' = v_p s \<and> C_p s' = C_p s \<and>
         materials s' = materials s \<and> is_used s' = is_used s \<and> colors_random s' = colors_random s"
  using p2g_fold_others[of svd "[0..<n_particles]" s s'] assms by (simp add: substep_p2g_def)



text \<open>The kernel returns when every active particle is ready.\<close>

lemma p2g_elastic_Inr:
  assumes "hardening material jp = Some h"
    and "svd (mmul (madd mident (msmul dt Cp)) Fp) = (U, sig, V)"
    and "plasticity material jp sig = (jp', sig', J)"
  shows "p2g_elastic svd material Cp Fp jp =
     Inr (if material = SNOW then mmul (mmul U sig') (mtranspose V) else mmul (madd mident (msmul dt Cp)) Fp,
          jp',
          madd (msmul (- dt * p_vol * 4 * inv_dx * inv_dx)
                 (madd (mmul (msmul (2 * (mu_0 * h))
                          (msub (if material = SNOW then mmul (mmul U sig') (mtranspose V)
                                 else mmul (madd mident (msmul dt Cp)) Fp)
                                (mmul U (mtranspose V))))
                        (mtranspose (if material = SNOW then mmul (mmul U sig') (mtranspose V)
                                     else mmul (madd mident (msmul dt Cp)) Fp)))
                       (msmul (lambda_0 * h * J * (J - 1)) mident)))
               (msmul p_mass Cp))"
  unfolding p2g_elastic_def Let_def assms option.case prod.case ..

lemma constitutive_total:
  assumes "material = JELLY \<or> jp \<noteq> None"
  shows "\<exists>r. constitutive svd material Cp Fp jp = Inr r"
proof (cases "material = WATER")
  case True
  with assms obtain j where "jp = Some j" by (auto simp: WATER_def JELLY_def)
  with True show ?thesis by (simp add: constitutive_def p2g_water_def Let_def del: split_paired_Ex)
next
  case False
  from assms have "hardening material jp \<noteq> None"
    by (cases "material = JELLY"; cases jp) (simp_all add: hardening_def)
  then obtain h where h: "hardening material jp = Some h" by blast
  obtain U sig V where s: "svd (mmul (madd mident (msmul dt Cp)) Fp) = (U, sig, V)"
    by (cases "svd (mmul (madd mident (msmul dt Cp)) Fp)") auto
  obtain jp' sig' J where p: "plasticity material jp sig = (jp', sig', J)"
    by (cases "plasticity material jp sig") auto
  from False show ?thesis
    unfolding constitutive_def p2g_elastic_Inr[where svd = svd, OF h s p] by (simp del: split_paired_Ex)
qed

lemma scatter_fold_total:
  assumes "\<forall>off \<in> set offs. in_grid (ivadd base (offset_int off))"
  shows "\<exists>s'. foldE (scatter_node base fx w vp affine) offs s = Inr s'"
proof -
  have "\<exists>s'. foldE (scatter_node base fx w vp affine) offs s = Inr s' \<and> True"
    by (rule foldE_total) (use assms in \<open>auto simp: scatter_node_def Let_def\<close>)
  then show ?thesis by simp
qed

lemma p2g_particle_total:
  assumes "is_used s q \<noteq> 0 \<longrightarrow> neighbours_in_grid (x_p s q) \<and> (materials s q = JELLY \<or> Jp s q \<noteq> None)"
  shows "\<exists>s'. p2g_particle svd q s = Inr s'"
proof (cases "is_used s q \<noteq> 0")
  case False
  then show ?thesis by (simp add: p2g_particle_def)
next
  case True
  with assms have n: "neighbours_in_grid (x_p s q)" and j: "materials s q = JELLY \<or> Jp s q \<noteq> None"
    by simp_all
  from constitutive_total[OF j] obtain F' jp' affine where
    c: "constitutive svd (materials s q) (C_p s q) (F_p s q) (Jp s q) = Inr (F', jp', affine)"
    by (metis prod_cases3)
  from n have "\<forall>off \<in> set offsets. in_grid (ivadd (base_of (x_p s q)) (offset_int off))"
    by (simp add: neighbours_in_grid_def list_all_iff)
  from scatter_fold_total[OF this] c True show ?thesis
    by (simp add: p2g_particle_def Let_def)
qed

lemma p2g_fold_total:
  assumes "distinct ps"
    and "\<forall>p \<in> set ps. is_used s p \<noteq> 0 \<longrightarrow> neighbours_in_grid (x_p s p) \<and> (materials s p = JELLY \<or> Jp s p \<noteq> None)"
  shows "\<exists>s'. foldE (p2g_particle svd) ps s = Inr s'"
  using assms
proof (induction ps arbitrary: s)
  case Nil
  then show ?case by simp
next
  case (Cons q ps)
  from Cons.prems(2) obtain t where t: "p2g_particle svd q s = Inr t"
    using p2g_particle_total[of s q svd] by auto
  note f = p2g_particle_fields[OF t]
  have "\<forall>p \<in> set ps. is_used t p \<noteq> 0 \<longrightarrow> neighbours_in_grid (x_p t p) \<and> (materials t p = JELLY \<or> Jp t p \<noteq> None)"
  proof
    fix p assume p: "p \<in> set ps"
    with Cons.prems(1) have "p \<noteq> q" by auto
    with f have "Jp t p = Jp s p" by simp
    with f p Cons.prems(2)
    show "is_used t p \<noteq> 0 \<longrightarrow> neighbours_in_grid (x_p t p) \<and> (materials t p = JELLY \<or> Jp t p \<noteq> None)"
      by simp
  qed
  with Cons.IH[of t] Cons.prems(1) obtain s' where "foldE (p2g_particle svd) ps t = Inr s'" by auto
  with t show ?case by simp
qed

lemma substep_p2g_total:
  assumes "p2g_ready s"
  shows "\<exists>s'. substep_p2g svd s = Inr s'"
  unfolding substep_p2g_def
  by (rule p2g_fold_total) (use assms in \<open>auto simp: p2g_ready_def\<close>)

section \<open>Grid to particle: what a particle's iteration reads and writes\<close>

lemma gather_node_grid:
  assumes "grid_v t = grid_v s"
  shows "gather_node t base fx w = gather_node s base fx w"
  by (intro ext) (simp add: gather_node_def Let_def assms split: prod.splits)

lemma gather_fold_total:
  assumes "\<forall>off \<in> set offs. in_grid (ivadd base (offset_int off))"
  shows "\<exists>r. foldE (gather_node s base fx w) offs acc = Inr r"
proof -
  have step: "\<exists>t'. gather_node s base fx w off t = Inr t' \<and> True" if "off \<in> set offs" for off t
    using that assms by (cases t) (simp add: gather_node_def Let_def del: split_paired_Ex)
  have "\<exists>r. foldE (gather_node s base fx w) offs acc = Inr r \<and> True"
    by (rule foldE_total) (use step in simp_all)
  then show ?thesis by simp
qed

lemma g2p_particle_fields:
  assumes "g2p_particle q s = Inr s'"
  shows "grid_v s' = grid_v s \<and> grid_m s' = grid_m s \<and> F_p s' = F_p s \<and>
         materials s' = materials s \<and> is_used s' = is_used s \<and> colors_random s' = colors_random s \<and>
         (\<forall>p. p \<noteq> q \<longrightarrow> x_p s' p = x_p s p \<and> v_p s' p = v_p s p \<and> C_p s' p = C_p s p \<and> Jp s' p = Jp s p)"
  using assms by (auto simp: g2p_particle_def Let_def split: if_splits sum.splits)

lemma g2p_particle_self:
  assumes "g2p_particle p s = Inr s'" and "is_used s p \<noteq> 0"
  shows "foldE (gather_node s (base_of (x_p s p)) (fx_of (x_p s p)) (g2p_weights (fx_of (x_p s p)))) offsets (vzero, mzero)
           = Inr (v_p s' p, C_p s' p) \<and>
         x_p s' p = vadd (x_p s p) (smul dt (v_p s' p)) \<and>
         Jp s' p = fmul (Jp s p) (Some (1 + dt * mtrace (C_p s' p)))"
  using assms by (auto simp: g2p_particle_def Let_def split: if_splits sum.splits)

lemma g2p_particle_inactive:
  assumes "g2p_particle q s = Inr s'" and "is_used s p = 0"
  shows "x_p s' p = x_p s p \<and> v_p s' p = v_p s p \<and> C_p s' p = C_p s p \<and> Jp s' p = Jp s p"
  using assms by (cases "q = p") (auto simp: g2p_particle_def Let_def split: if_splits sum.splits)

lemma g2p_fold_others:
  assumes "foldE g2p_particle ps s = Inr s'"
  shows "grid_v s' = grid_v s \<and> grid_m s' = grid_m s \<and> F_p s' = F_p s \<and>
         materials s' = materials s \<and> is_used s' = is_used s \<and> colors_random s' = colors_random s \<and>
         (\<forall>p. p \<notin> set ps \<longrightarrow> x_p s' p = x_p s p \<and> v_p s' p = v_p s p \<and> C_p s' p = C_p s p \<and> Jp s' p = Jp s p)"
  by (rule foldE_inv[OF assms, where P = "\<lambda>t. grid_v t = grid_v s \<and> grid_m t = grid_m s \<and> F_p t = F_p s \<and>
         materials t = materials s \<and> is_used t = is_used s \<and> colors_random t = colors_random s \<and>
         (\<forall>p. p \<notin> set ps \<longrightarrow> x_p t p = x_p s p \<and> v_p t p = v_p s p \<and> C_p t p = C_p s p \<and> Jp t p = Jp s p)"])
     (use g2p_particle_fields in \<open>simp, metis\<close>)

lemma g2p_fold_inactive:
  assumes "foldE g2p_particle ps s = Inr s'" and "is_used s p = 0"
  shows "x_p s' p = x_p s p \<and> v_p s' p = v_p s p \<and> C_p s' p = C_p s p \<and> Jp s' p = Jp s p"
  by (rule foldE_inv[OF assms(1), where P = "\<lambda>t. is_used t = is_used s \<and> x_p t p = x_p s p \<and> v_p t p = v_p s p \<and> C_p t p = C_p s p \<and> Jp t p = Jp s p", THEN conjunct2])
     (use assms(2) g2p_particle_fields g2p_particle_inactive in \<open>simp, metis\<close>)

lemma g2p_fold_self:
  assumes "foldE g2p_particle ps s = Inr s'" and "p \<in> set ps" and "distinct ps" and "is_used s p \<noteq> 0"
  shows "foldE (gather_node s (base_of (x_p s p)) (fx_of (x_p s p)) (g2p_weights (fx_of (x_p s p)))) offsets (vzero, mzero)
           = Inr (v_p s' p, C_p s' p) \<and>
         x_p s' p = vadd (x_p s p) (smul dt (v_p s' p)) \<and>
         Jp s' p = fmul (Jp s p) (Some (1 + dt * mtrace (C_p s' p)))"
proof -
  from assms(1-3) obtain pre post s1 s2 where
    "p \<notin> set pre" "p \<notin> set post" and pre: "foldE g2p_particle pre s = Inr s1"
    and st: "g2p_particle p s1 = Inr s2" and post: "foldE g2p_particle post s2 = Inr s'"
    by (rule foldE_split)
  note a = g2p_fold_others[OF pre] and c = g2p_fold_others[OF post]
  from a \<open>p \<notin> set pre\<close> have v: "is_used s1 p = is_used s p" "x_p s1 p = x_p s p" "Jp s1 p = Jp s p"
    "grid_v s1 = grid_v s" by simp_all
  from c \<open>p \<notin> set post\<close> have w: "x_p s' p = x_p s2 p" "v_p s' p = v_p s2 p" "C_p s' p = C_p s2 p" "Jp s' p = Jp s2 p"
    by simp_all
  from g2p_particle_self[OF st] assms(4) v(1) show ?thesis
    by (simp add: v w gather_node_grid[OF v(4)])
qed

lemma substep_g2p_particle:
  assumes "substep_g2p s = Inr s'" and "p < n_particles" and "is_used s p \<noteq> 0"
  shows "foldE (gather_node s (base_of (x_p s p)) (fx_of (x_p s p)) (g2p_weights (fx_of (x_p s p)))) offsets (vzero, mzero)
           = Inr (v_p s' p, C_p s' p) \<and>
         x_p s' p = vadd (x_p s p) (smul dt (v_p s' p)) \<and>
         Jp s' p = fmul (Jp s p) (Some (1 + dt * mtrace (C_p s' p)))"
  using assms g2p_fold_self[of "[0..<n_particles]" s s' p] by (simp add: substep_g2p_def)


lemma g2p_particle_total:
  assumes "is_used s q \<noteq> 0 \<longrightarrow> neighbours_in_grid (x_p s q)"
  shows "\<exists>s'. g2p_particle q s = Inr s'"
proof (cases "is_used s q \<noteq> 0")
  case False
  then show ?thesis by (simp add: g2p_particle_def)
next
  case True
  with assms have "\<forall>off \<in> set offsets. in_grid (ivadd (base_of (x_p s q)) (offset_int off))"
    by (simp add: neighbours_in_grid_def list_all_iff)
  from gather_fold_total[OF this] obtain nv nC where
    "foldE (gather_node s (base_of (x_p s q)) (fx_of (x_p s q)) (g2p_weights (fx_of (x_p s q)))) offsets (vzero, mzero) = Inr (nv, nC)"
    by (metis surj_pair)
  with True show ?thesis by (simp add: g2p_particle_def Let_def)
qed

lemma g2p_fold_total:
  assumes "distinct ps"
    and "\<forall>p \<in> set ps. is_used s p \<noteq> 0 \<longrightarrow> neighbours_in_grid (x_p s p)"
  shows "\<exists>s'. foldE g2p_particle ps s = Inr s'"
  using assms
proof (induction ps arbitrary: s)
  case Nil
  then show ?case by simp
next
  case (Cons q ps)
  from Cons.prems(2) obtain t where t: "g2p_particle q s = Inr t"
    using g2p_particle_total[of s q] by auto
  note f = g2p_particle_fields[OF t]
  have "\<forall>p \<in> set ps. is_used t p \<noteq> 0 \<longrightarrow> neighbours_in_grid (x_p t p)"
  proof
    fix p assume p: "p \<in> set ps"
    with Cons.prems(1) have "p \<noteq> q" by auto
    with f have "x_p t p = x_p s p" by simp
    with f p Cons.prems(2) show "is_used t p \<noteq> 0 \<longrightarrow> neighbours_in_grid (x_p t p)" by simp
  qed
  with Cons.IH[of t] Cons.prems(1) obtain s' where "foldE g2p_particle ps t = Inr s'" by auto
  with t show ?case by simp
qed

lemma substep_g2p_total:
  assumes "g2p_ready s"
  shows "\<exists>s'. substep_g2p s = Inr s'"
  unfolding substep_g2p_def
  by (rule g2p_fold_total) (use assms in \<open>auto simp: g2p_ready_def\<close>)

section \<open>The constitutive update and the substep\<close>

lemma vget_simps [simp]:
  "vget (a, b, c) 0 = a" "vget (a, b, c) (Suc 0) = b" "vget (a, b, c) 1 = b" "vget (a, b, c) 2 = c"
  by simp_all

lemma mget_mset_diag:
  "i < 3 \<Longrightarrow> j < 3 \<Longrightarrow> mget (mset M i i r) j j = (if i = j then r else mget M j j)"
  by (cases M rule: prod_cases3; cases "vget M 0"; cases "vget M 1"; cases "vget M 2")
     (auto simp: mget_def mset_def)

lemma plasticity_step_eq:
  "plasticity_step material d (jp, sig, J) =
     (fmul jp (fdiv (mget sig d d) (new_sig_of material (mget sig d d))),
      mset sig d d (new_sig_of material (mget sig d d)),
      J * new_sig_of material (mget sig d d))"
  by (simp add: plasticity_step_def Let_def)

lemma plasticity_eq:
  "plasticity material jp sig =
     (fmul (fmul (fmul jp (fdiv (mget sig 0 0) (new_sig_of material (mget sig 0 0))))
                 (fdiv (mget sig 1 1) (new_sig_of material (mget sig 1 1))))
           (fdiv (mget sig 2 2) (new_sig_of material (mget sig 2 2))),
      with_diagonal sig (new_sig_of material (mget sig 0 0)) (new_sig_of material (mget sig 1 1))
        (new_sig_of material (mget sig 2 2)),
      1 * new_sig_of material (mget sig 0 0) * new_sig_of material (mget sig 1 1)
        * new_sig_of material (mget sig 2 2))"
  by (simp add: plasticity_def plasticity_step_eq mget_mset_diag with_diagonal_def)

lemma new_sig_snow: "new_sig_of SNOW x = snow_clamp x"
  by (simp add: new_sig_of_def snow_clamp_def spec_clamp_def)

lemma new_sig_other: "material \<noteq> SNOW \<Longrightarrow> new_sig_of material x = x"
  by (simp add: new_sig_of_def)

lemma snow_clamp_pos: "0 < snow_clamp x"
  by (simp add: snow_clamp_def spec_clamp_def)

lemma mset_same: "i < 3 \<Longrightarrow> mset M i i (mget M i i) = M"
  by (cases M rule: prod_cases3; cases "vget M 0"; cases "vget M 1"; cases "vget M 2")
     (auto simp: mget_def mset_def)

lemma with_diagonal_same: "with_diagonal sig (mget sig 0 0) (mget sig 1 1) (mget sig 2 2) = sig"
  by (simp add: with_diagonal_def mset_same mget_mset_diag)



lemma constitutive_elastic:
  assumes "constitutive svd material Cp Fp jp = Inr (F', jp', affine)" and "material \<noteq> WATER"
    and "svd (mmul (madd mident (msmul dt Cp)) Fp) = (U, sig, V)"
  shows "\<exists>J. plasticity material jp sig =
           (jp', with_diagonal sig (new_sig_of material (mget sig 0 0)) (new_sig_of material (mget sig 1 1))
                   (new_sig_of material (mget sig 2 2)), J) \<and>
         F' = (if material = SNOW
               then mmul (mmul U (with_diagonal sig (new_sig_of material (mget sig 0 0))
                                    (new_sig_of material (mget sig 1 1)) (new_sig_of material (mget sig 2 2))))
                         (mtranspose V)
               else mmul (madd mident (msmul dt Cp)) Fp)"
proof -
  from assms(1,2) have e: "p2g_elastic svd material Cp Fp jp = Inr (F', jp', affine)"
    by (simp add: constitutive_def)
  have "hardening material jp \<noteq> None"
  proof
    assume "hardening material jp = None"
    then have "p2g_elastic svd material Cp Fp jp = Inl NonFinite"
      by (simp add: p2g_elastic_def Let_def)
    with e show False by simp
  qed
  then obtain h where h: "hardening material jp = Some h" by blast
  obtain jp1 sig1 J where p: "plasticity material jp sig = (jp1, sig1, J)"
    by (cases "plasticity material jp sig") auto
  from e p2g_elastic_Inr[where svd = svd, OF h assms(3) p]
  have "jp' = jp1" and F: "F' = (if material = SNOW then mmul (mmul U sig1) (mtranspose V)
                                 else mmul (madd mident (msmul dt Cp)) Fp)"
    by simp_all
  moreover from p have "sig1 = with_diagonal sig (new_sig_of material (mget sig 0 0))
      (new_sig_of material (mget sig 1 1)) (new_sig_of material (mget sig 2 2))"
    by (simp add: plasticity_eq)
  ultimately show ?thesis using p by simp
qed

text \<open>The other kernels leave F and the materials alone.\<close>

lemma substep_zero_out_fields:
  "x_p (substep_zero_out s) = x_p s \<and> v_p (substep_zero_out s) = v_p s \<and>
   C_p (substep_zero_out s) = C_p s \<and> F_p (substep_zero_out s) = F_p s \<and>
   Jp (substep_zero_out s) = Jp s \<and> materials (substep_zero_out s) = materials s \<and>
   is_used (substep_zero_out s) = is_used s"
  by (simp add: substep_zero_out_def)

lemma substep_grid_fields:
  assumes "substep_grid gravity s = Inr s'"
  shows "x_p s' = x_p s \<and> v_p s' = v_p s \<and> C_p s' = C_p s \<and> F_p s' = F_p s \<and>
         Jp s' = Jp s \<and> materials s' = materials s \<and> is_used s' = is_used s \<and> grid_m s' = grid_m s"
  using assms by (auto simp: substep_grid_eq)




lemma substep_total:
  assumes "p2g_ready s"
  shows "\<exists>s'. substep svd gravity s = Inr s'"
proof -
  from assms have "p2g_ready (substep_zero_out s)"
    by (simp add: p2g_ready_def substep_zero_out_def)
  from substep_p2g_total[OF this] obtain s1 where a: "substep_p2g svd (substep_zero_out s) = Inr s1" by blast
  obtain s2 where b: "substep_grid gravity s1 = Inr s2" by (simp add: substep_grid_eq)
  from assms substep_p2g_fields[OF a] substep_grid_fields[OF b] have "g2p_ready s2"
    by (simp add: p2g_ready_def g2p_ready_def substep_zero_out_def)
  from substep_g2p_total[OF this] obtain s' where "substep_g2p s2 = Inr s'" by blast
  with a b show ?thesis by (simp add: substep_def)
qed

lemma base_of_mid: "base_of (1 / 2, 1 / 2, 1 / 2) = (63, 63, 63)"
  by (simp add: base_of_def vcast_int_def cast_int_def smul_def inv_dx_def dx_def n_grid_def quality_def)

lemma fx_of_mid: "fx_of (1 / 2, 1 / 2, 1 / 2) = (1, 1, 1)"
  by (simp add: fx_of_def base_of_mid vcast_float_def vsub_def smul_def inv_dx_def dx_def n_grid_def quality_def)

lemma neighbours_mid: "neighbours_in_grid (1 / 2, 1 / 2, 1 / 2)"
  by (simp add: neighbours_in_grid_def base_of_mid offsets_def offset_int_def ivadd_def n_grid_def quality_def)

lemma one_particle_ready: "p2g_ready (one_particle material)"
  by (simp add: p2g_ready_def one_particle_def blank_state_def neighbours_mid)

lemma squeezed_snow_ready: "p2g_ready squeezed_snow"
  using one_particle_ready[of SNOW] by (simp add: p2g_ready_def squeezed_snow_def)

lemma collapsing_jelly_ready: "p2g_ready collapsing_jelly"
  using one_particle_ready[of JELLY] by (simp add: p2g_ready_def collapsing_jelly_def)

lemma fast_grid_ready: "g2p_ready fast_grid"
  using one_particle_ready[of WATER] by (simp add: p2g_ready_def g2p_ready_def fast_grid_def)

lemma n_particles_pos: "0 < n_particles"
  by (simp add: n_particles_def quality_def)

lemma fmul_three:
  "fmul (fmul (fmul jp (Some a)) (Some b)) (Some c) = fmul jp (Some (a * b * c))"
  by (cases jp) (simp_all add: mult.assoc)


lemma fmul_one: "fmul jp (Some 1) = jp"
  by (cases jp) simp_all


lemma fdiv_pos: "0 < b \<Longrightarrow> fdiv a b = Some (a / b)"
  by (simp add: fdiv_def)


lemma fdiv_self: "a \<noteq> 0 \<Longrightarrow> fdiv a a = Some 1"
  by (simp add: fdiv_def)


lemma predicted_squeezed:
  "predicted_F squeezed_snow 0 = ((9 / 10, 0, 0), (0, 1, 0), (0, 0, 11 / 10))"
  by (simp add: predicted_F_def squeezed_snow_def one_particle_def blank_state_def mmul_def madd_def
      msmul_def mident_def mzero_def vzero_def vadd_def smul_def mcol_def dt_def)


lemma predicted_rest:
  "predicted_F (one_particle material) 0 = mident"
  by (simp add: predicted_F_def one_particle_def blank_state_def mmul_def madd_def
      msmul_def mident_def mzero_def vzero_def vadd_def smul_def mcol_def dt_def)


lemma predicted_collapsing:
  "predicted_F collapsing_jelly 0 = ((0, 0, 0), (0, 0, 0), (0, 0, 0))"
  by (simp add: predicted_F_def collapsing_jelly_def one_particle_def blank_state_def mmul_def madd_def
      msmul_def mident_def mzero_def vzero_def vadd_def smul_def mcol_def dt_def)


lemma is_svd_diag:
  "0 \<le> a \<Longrightarrow> 0 \<le> b \<Longrightarrow> 0 \<le> c \<Longrightarrow>
   is_svd ((a, 0, 0), (0, b, 0), (0, 0, c)) (svd_diag ((a, 0, 0), (0, b, 0), (0, 0, c)))"
  by (simp add: is_svd_def svd_diag_def mmul_def mident_def mtranspose_def mcol_def with_diagonal_def
      mset_def mget_def mzero_def vzero_def)


section \<open>The mass that the scatter adds\<close>

lemma sum_list_upd_out:
  "pos \<notin> set xs \<Longrightarrow> sum_list (map (g(pos := r)) xs) = sum_list (map g xs)"
  by (induction xs) auto

lemma sum_list_upd_in:
  fixes g :: "'a \<Rightarrow> real"
  shows "distinct xs \<Longrightarrow> pos \<in> set xs \<Longrightarrow>
         sum_list (map (g(pos := g pos + d)) xs) = sum_list (map g xs) + d"
  by (induction xs) (auto simp: sum_list_upd_out)

lemma scatter_node_mass:
  assumes "scatter_node base fx w vp affine off s = Inr s'"
  shows "total_mass s' = total_mass s + weight_of w off * p_mass"
proof -
  let ?pos = "ivadd base (offset_int off)"
  from assms have g: "in_grid ?pos"
    and m: "grid_m s' = (grid_m s)(?pos := grid_m s ?pos + weight_of w off * p_mass)"
    by (auto simp: scatter_node_def Let_def split: if_splits)
  from g have "?pos \<in> set grid_nodes" by (simp add: set_grid_nodes)
  then show ?thesis
    unfolding total_mass_def m by (rule sum_list_upd_in[OF distinct_grid_nodes])
qed

lemma scatter_fold_mass:
  assumes "foldE (scatter_node base fx w vp affine) offs s = Inr s'"
  shows "total_mass s' = total_mass s + sum_list (map (weight_of w) offs) * p_mass"
  using assms
proof (induction offs arbitrary: s)
  case Nil
  then show ?case by simp
next
  case (Cons off offs)
  from Cons.prems obtain t where t: "scatter_node base fx w vp affine off s = Inr t"
    and r: "foldE (scatter_node base fx w vp affine) offs t = Inr s'"
    by (auto split: sum.splits)
  from Cons.IH[OF r] scatter_node_mass[OF t] show ?case by (simp add: algebra_simps)
qed

lemma weights_product:
  "sum_list (map (weight_of [a, b, c]) offsets) =
     (vget a 0 + vget b 0 + vget c 0) * (vget a 1 + vget b 1 + vget c 1) * (vget a 2 + vget b 2 + vget c 2)"
  by (simp add: offsets_def weight_of_def algebra_simps)

lemma p2g_weights_total: "sum_list (map (weight_of (p2g_weights fx)) offsets) = 1"
proof -
  obtain a b c where fx: "fx = (a, b, c)" by (cases fx) auto
  have one: "0.5 * (1.5 - t)\<^sup>2 + (0.75 - (t - 1)\<^sup>2) + 0.5 * (t - 0.5)\<^sup>2 = 1" for t :: real
    by (simp add: power2_eq_square algebra_simps)
  show ?thesis
    unfolding p2g_weights_def weights_product fx using one[of a] one[of b] one[of c] by simp
qed

lemma p2g_particle_mass:
  assumes "p2g_particle svd p s = Inr s'"
  shows "total_mass s' = total_mass s + (if is_used s p \<noteq> 0 then p_mass else 0)"
proof (cases "is_used s p \<noteq> 0")
  case False
  with assms show ?thesis by (simp add: p2g_particle_def)
next
  case True
  with assms obtain F' jp' affine where
    f: "foldE (scatter_node (base_of (x_p s p)) (fx_of (x_p s p)) (p2g_weights (fx_of (x_p s p))) (v_p s p) affine)
              offsets (s\<lparr>F_p := (F_p s)(p := F'), Jp := (Jp s)(p := jp')\<rparr>) = Inr s'"
    by (auto simp: p2g_particle_def Let_def split: sum.splits)
  from scatter_fold_mass[OF f] True show ?thesis
    by (simp add: p2g_weights_total total_mass_def)
qed

lemma p2g_fold_mass:
  assumes "foldE (p2g_particle svd) ps s = Inr s'"
  shows "total_mass s' = total_mass s + real (length (filter (\<lambda>p. is_used s p \<noteq> 0) ps)) * p_mass"
  using assms
proof (induction ps arbitrary: s)
  case Nil
  then show ?case by simp
next
  case (Cons q ps)
  from Cons.prems obtain t where t: "p2g_particle svd q s = Inr t"
    and r: "foldE (p2g_particle svd) ps t = Inr s'"
    by (auto split: sum.splits)
  from p2g_particle_fields[OF t] have u: "is_used t = is_used s" by simp
  from Cons.IH[OF r] p2g_particle_mass[OF t] show ?case
    by (simp add: u algebra_simps)
qed

lemma sum_list_zeros:
  fixes g :: "'a \<Rightarrow> real"
  shows "(\<And>x. x \<in> set xs \<Longrightarrow> g x = 0) \<Longrightarrow> sum_list (map g xs) = 0"
  by (induction xs) auto

lemma zero_out_mass: "total_mass (substep_zero_out s) = 0"
  unfolding total_mass_def
  by (rule sum_list_zeros) (simp add: set_grid_nodes substep_zero_out_def)

lemma active_count_one: "active_count (one_particle material) = 1"
proof -
  have "[0..<n_particles] = 0 # [1..<n_particles]"
    using n_particles_pos by (simp add: upt_conv_Cons)
  moreover have "filter (\<lambda>p. is_used (one_particle material) p \<noteq> 0) [1..<n_particles] = []"
    by (simp add: one_particle_def filter_empty_conv)
  ultimately show ?thesis by (simp add: active_count_def one_particle_def)
qed

section \<open>The gather of the example particle\<close>

lemma g2p_weights_mid: "g2p_weights (1, 1, 1) = [(1 / 8, 1 / 8, 1 / 8), (3 / 4, 3 / 4, 3 / 4), (1 / 8, 1 / 8, 1 / 8)]"
  by (simp add: g2p_weights_def power2_eq_square)

lemma gather_fast:
  "\<exists>nC. foldE (gather_node fast_grid (63, 63, 63) (1, 1, 1) (g2p_weights (1, 1, 1))) offsets (vzero, mzero)
      = Inr ((10000, 0, 0), nC)"
  by (simp add: g2p_weights_mid offsets_def gather_node_def Let_def fast_grid_def ivadd_def offset_int_def
      weight_of_def vadd_def smul_def vzero_def n_grid_def quality_def del: split_paired_Ex)

lemma fast_grid_particle:
  "is_used fast_grid 0 \<noteq> 0 \<and> x_p fast_grid 0 = (1 / 2, 1 / 2, 1 / 2)"
  by (simp add: fast_grid_def one_particle_def blank_state_def)

lemma fast_grid_velocity:
  assumes "foldE (gather_node fast_grid (base_of (x_p fast_grid 0)) (fx_of (x_p fast_grid 0))
             (g2p_weights (fx_of (x_p fast_grid 0)))) offsets (vzero, mzero) = Inr (u, nC)"
  shows "u = (10000, 0, 0)"
  using assms gather_fast by (auto simp: fast_grid_particle base_of_mid fx_of_mid)

lemma base_of_out: "base_of (3 / 2, 1 / 2, 1 / 2) = (191, 63, 63)"
  by (simp add: base_of_def vcast_int_def cast_int_def smul_def inv_dx_def dx_def n_grid_def quality_def)

lemma neighbours_out: "\<not> neighbours_in_grid (3 / 2, 1 / 2, 1 / 2)"
  by (simp add: neighbours_in_grid_def base_of_out offsets_def offset_int_def ivadd_def n_grid_def quality_def)

section \<open>The ranges of the initialisation\<close>

lemma sum_volumes_eq:
  "has_volumes vols \<Longrightarrow>
   sum_volumes fl acc vols = Inr (foldl (\<lambda>total_vol v. fl (total_vol + vol_of fl v)) acc vols)"
proof (induction vols arbitrary: acc)
  case Nil
  then show ?case by simp
next
  case (Cons v vs)
  from Cons.prems have hv: "has_volumes vs" and v: "v \<noteq> OtherObject None"
    by (simp_all add: has_volumes_def)
  from v obtain a where a: "volume fl v = Some a"
    by (cases v) auto
  with Cons.IH[OF hv] show ?case by (simp add: vol_of_def)
qed


lemma all_cubes_has_volumes: "all_cubes vols \<Longrightarrow> has_volumes vols"
  unfolding all_cubes_def has_volumes_def list_all_iff
proof
  fix v assume "\<forall>v \<in> set vols. is_cube v" and "v \<in> set vols"
  then have "is_cube v" by simp
  then show "v \<noteq> OtherObject None" by (cases v) simp_all
qed

lemma vol_of_cube: "vol_of fl (CubeVolume mn sz mat) = cube_volume fl sz"
  by (simp add: vol_of_def)

lemma par_count_last:
  "tvol \<noteq> 0 \<Longrightarrow> int i = int len - 1 \<Longrightarrow> par_count_of fl tvol len i np a = Inr (int n_particles - np)"
  by (simp add: par_count_of_def)

lemma par_count_share:
  "tvol \<noteq> 0 \<Longrightarrow> int i \<noteq> int len - 1 \<Longrightarrow>
   par_count_of fl tvol len i np a = Inr (cast_int (fl (fl (a / tvol) * real n_particles)))"
  by (simp add: par_count_of_def)

lemma init_ranges_length:
  "all_cubes vols \<Longrightarrow> tvol \<noteq> 0 \<Longrightarrow> length (init_ranges fl tvol len i np vols) = length vols"
proof (induction vols arbitrary: i np)
  case Nil
  then show ?case by simp
next
  case (Cons v vs)
  then obtain mn sz mat where v: "v = CubeVolume mn sz mat" by (cases v) (auto simp: all_cubes_def)
  from Cons.prems have "all_cubes vs" by (simp add: all_cubes_def)
  with Cons show ?case by (simp add: v par_count_of_def)
qed

text \<open>Roundings with a bounded relative error.\<close>

lemma fl_upper:
  assumes "rounds_within fl eps" and "0 \<le> x"
  shows "fl x \<le> (1 + eps) * x"
proof -
  from assms(1) have "\<bar>fl x - x\<bar> \<le> eps * \<bar>x\<bar>" by (simp add: rounds_within_def)
  with assms(2) have "fl x - x \<le> eps * x" by simp
  then show ?thesis by (simp add: algebra_simps)
qed

lemma fl_lower:
  assumes "rounds_within fl eps" and "0 \<le> x"
  shows "(1 - eps) * x \<le> fl x"
proof -
  from assms(1) have "\<bar>fl x - x\<bar> \<le> eps * \<bar>x\<bar>" by (simp add: rounds_within_def)
  with assms(2) have "x - fl x \<le> eps * x" by simp
  then show ?thesis by (simp add: algebra_simps)
qed

lemma fl_nonneg:
  assumes "rounds_within fl eps" and "eps \<le> 1" and "0 \<le> x"
  shows "0 \<le> fl x"
proof -
  from assms(2,3) have "0 \<le> (1 - eps) * x" by simp
  with fl_lower[OF assms(1,3)] show ?thesis by simp
qed

lemma share_bounds:
  assumes r: "rounds_within fl eps" and e: "0 \<le> eps" "eps \<le> 1" and a: "0 \<le> a" and t: "0 < t" and n: "0 \<le> n"
  shows "0 \<le> fl (fl (a / t) * n)" and "fl (fl (a / t) * n) * t \<le> (1 + eps)\<^sup>2 * n * a"
proof -
  from a t have q0: "0 \<le> a / t" by simp
  from fl_nonneg[OF r e(2) q0] have fq0: "0 \<le> fl (a / t)" .
  with n have p0: "0 \<le> fl (a / t) * n" by simp
  from fl_nonneg[OF r e(2) p0] show "0 \<le> fl (fl (a / t) * n)" .
  from fl_upper[OF r p0] have "fl (fl (a / t) * n) \<le> (1 + eps) * (fl (a / t) * n)" .
  also have "\<dots> \<le> (1 + eps) * (((1 + eps) * (a / t)) * n)"
    using fl_upper[OF r q0] e(1) n by (intro mult_left_mono mult_right_mono) simp_all
  finally have "fl (fl (a / t) * n) \<le> (1 + eps)\<^sup>2 * n * a / t"
    by (simp add: power2_eq_square algebra_simps)
  with t have "fl (fl (a / t) * n) * t \<le> (1 + eps)\<^sup>2 * n * a / t * t"
    by (intro mult_right_mono) simp_all
  with t show "fl (fl (a / t) * n) * t \<le> (1 + eps)\<^sup>2 * n * a" by simp
qed

lemma float_sum_lower:
  assumes r: "rounds_within fl eps" and e: "0 \<le> eps" "eps \<le> 1"
  shows "nonneg_volumes fl vols \<Longrightarrow> 0 \<le> acc \<Longrightarrow>
         (1 - eps) ^ length vols * (acc + exact_sum fl vols)
           \<le> foldl (\<lambda>total_vol v. fl (total_vol + vol_of fl v)) acc vols"
proof (induction vols arbitrary: acc)
  case Nil
  then show ?case by (simp add: exact_sum_def)
next
  case (Cons v vs)
  let ?a = "vol_of fl v"
  let ?n = "length vs"
  from Cons.prems(1) have a: "0 \<le> ?a" and nn: "nonneg_volumes fl vs"
    by (simp_all add: nonneg_volumes_def)
  from nn have R: "0 \<le> exact_sum fl vs"
    by (auto simp: nonneg_volumes_def exact_sum_def list_all_iff intro!: sum_list_nonneg)
  from a Cons.prems(2) have s0: "0 \<le> acc + ?a" by simp
  from fl_lower[OF r s0] have lo: "(1 - eps) * (acc + ?a) \<le> fl (acc + ?a)" .
  from fl_nonneg[OF r e(2) s0] have f0: "0 \<le> fl (acc + ?a)" .
  from e have p0: "0 \<le> (1 - eps) ^ ?n" by simp
  from e R have "(1 - eps) * exact_sum fl vs \<le> exact_sum fl vs"
    by (simp add: mult_left_le_one_le)
  with lo have "(1 - eps) * (acc + ?a + exact_sum fl vs) \<le> fl (acc + ?a) + exact_sum fl vs"
    by (simp add: algebra_simps)
  then have "(1 - eps) ^ ?n * ((1 - eps) * (acc + ?a + exact_sum fl vs))
                  \<le> (1 - eps) ^ ?n * (fl (acc + ?a) + exact_sum fl vs)"
    using p0 by (rule mult_left_mono)
  also have "\<dots> \<le> foldl (\<lambda>total_vol v. fl (total_vol + vol_of fl v)) (fl (acc + ?a)) vs"
    by (rule Cons.IH[OF nn f0])
  finally show ?case by (simp add: exact_sum_def algebra_simps)
qed

lemma exact_sum_nonneg: "nonneg_volumes fl vols \<Longrightarrow> 0 \<le> exact_sum fl vols"
  by (auto simp: nonneg_volumes_def exact_sum_def list_all_iff intro!: sum_list_nonneg)

lemma total_lower:
  assumes r: "rounds_within fl eps" and e: "0 \<le> eps" "eps \<le> 1" and nn: "nonneg_volumes fl vols"
  shows "(1 - real (length vols) * eps) * exact_sum fl vols \<le> total_of fl vols"
proof -
  from e have "- 1 \<le> - eps" by simp
  from Bernoulli_inequality[OF this, of "length vols"]
  have "1 - real (length vols) * eps \<le> (1 - eps) ^ length vols" by simp
  then have "(1 - real (length vols) * eps) * exact_sum fl vols \<le> (1 - eps) ^ length vols * exact_sum fl vols"
    using exact_sum_nonneg[OF nn] by (rule mult_right_mono)
  also from float_sum_lower[OF r e nn, of 0] have "\<dots> \<le> total_of fl vols"
    by (simp add: total_of_def)
  finally show ?thesis .
qed

lemma roundoff_budget:
  "(1 + unit_roundoff)\<^sup>2 * real n_particles
     < (real n_particles + 1) * (1 - real n_particles * unit_roundoff)"
  by (simp add: unit_roundoff_def n_particles_def quality_def power2_eq_square)

lemma share_budget:
  assumes r: "rounds_within fl unit_roundoff" and nn: "nonneg_volumes fl vols"
    and t: "0 < total_of fl vols" and n: "length vols \<le> n_particles"
  shows "(1 + unit_roundoff)\<^sup>2 * real n_particles * exact_sum fl vols
           < (real n_particles + 1) * total_of fl vols"
proof (cases "exact_sum fl vols = 0")
  case True
  with t show ?thesis by simp
next
  case False
  with exact_sum_nonneg[OF nn] have S: "0 < exact_sum fl vols" by simp
  have e: "0 \<le> unit_roundoff" "unit_roundoff \<le> 1" by (simp_all add: unit_roundoff_def)
  from n e(1) have "real (length vols) * unit_roundoff \<le> real n_particles * unit_roundoff"
    by (intro mult_right_mono) simp_all
  then have "(1 - real n_particles * unit_roundoff) * exact_sum fl vols
               \<le> (1 - real (length vols) * unit_roundoff) * exact_sum fl vols"
    using S by (intro mult_right_mono) simp_all
  also note total_lower[OF r e nn]
  finally have lo: "(1 - real n_particles * unit_roundoff) * exact_sum fl vols \<le> total_of fl vols" .
  from roundoff_budget S
  have "(1 + unit_roundoff)\<^sup>2 * real n_particles * exact_sum fl vols
          < (real n_particles + 1) * (1 - real n_particles * unit_roundoff) * exact_sum fl vols"
    by (rule mult_strict_right_mono)
  also have "\<dots> = (real n_particles + 1) * ((1 - real n_particles * unit_roundoff) * exact_sum fl vols)"
    by simp
  also from lo have "\<dots> \<le> (real n_particles + 1) * total_of fl vols"
    by (intro mult_left_mono) simp_all
  finally show ?thesis .
qed

lemma init_ranges_chain:
  assumes r: "rounds_within fl eps" and e: "0 \<le> eps" "eps \<le> 1"
  shows "all_cubes vols \<Longrightarrow> nonneg_volumes fl vols \<Longrightarrow> 0 < tvol \<Longrightarrow> vols \<noteq> [] \<Longrightarrow>
         i + length vols = len \<Longrightarrow>
         real_of_int np * tvol + (1 + eps)\<^sup>2 * real n_particles * exact_sum fl vols \<le> B \<Longrightarrow>
         B < (real n_particles + 1) * tvol \<Longrightarrow>
         chain np (init_ranges fl tvol len i np vols) (int n_particles)"
proof (induction vols arbitrary: i np)
  case Nil
  then show ?case by simp
next
  case (Cons v vs)
  then obtain mn sz mat where v: "v = CubeVolume mn sz mat" by (cases v) (auto simp: all_cubes_def)
  let ?a = "cube_volume fl sz"
  let ?G = "(1 + eps)\<^sup>2 * real n_particles"
  from Cons.prems(2) have a: "0 \<le> ?a" and nn: "nonneg_volumes fl vs"
    by (simp_all add: nonneg_volumes_def v vol_of_cube)
  from Cons.prems(1) have ac: "all_cubes vs" by (simp add: all_cubes_def)
  have G: "0 \<le> ?G" by simp
  have tot: "exact_sum fl (v # vs) = ?a + exact_sum fl vs" by (simp add: exact_sum_def v vol_of_cube)
  from Cons.prems(3) have t0: "tvol \<noteq> 0" by simp
  show ?case
  proof (cases "vs = []")
    case True
    with Cons.prems(5) have last: "int i = int len - 1" by auto
    from a G have "0 \<le> ?G * ?a" by (rule mult_nonneg_nonneg[rotated])
    with Cons.prems(6) have "real_of_int np * tvol \<le> B"
      by (simp add: True exact_sum_def v vol_of_cube)
    with Cons.prems(7) have "real_of_int np * tvol < (real n_particles + 1) * tvol" by simp
    with Cons.prems(3) have "real_of_int np < real n_particles + 1" by simp
    then have "np \<le> int n_particles" by linarith
    then show ?thesis by (simp add: v True par_count_last[OF t0 last])
  next
    case False
    with Cons.prems(5) have nl: "int i \<noteq> int len - 1" by (cases vs) auto
    let ?p = "fl (fl (?a / tvol) * real n_particles)"
    let ?c = "cast_int ?p"
    have p0: "0 \<le> ?p" and pb: "?p * tvol \<le> ?G * ?a"
      using share_bounds[OF r e a Cons.prems(3), of "real n_particles"] by simp_all
    from p0 have c: "?c = \<lfloor>?p\<rfloor>" by (simp add: cast_int_def)
    with p0 have c0: "0 \<le> ?c" by simp
    from c have "real_of_int ?c \<le> ?p" by simp
    with Cons.prems(3) have "real_of_int ?c * tvol \<le> ?p * tvol" by (intro mult_right_mono) simp_all
    with pb have "real_of_int ?c * tvol \<le> ?G * ?a" by simp
    with Cons.prems(6) tot
    have inv: "real_of_int (np + ?c) * tvol + ?G * exact_sum fl vs \<le> B"
      by (simp add: algebra_simps)
    from Cons.prems(5) have "Suc i + length vs = len" by simp
    from Cons.IH[OF ac nn Cons.prems(3) False this inv Cons.prems(7)] c0
    show ?thesis by (simp add: v par_count_share[OF t0 nl])
  qed
qed

lemma init_ranges_share:
  assumes "all_cubes vols" and "tvol \<noteq> 0" and "k < length vols" and "int (i + k) \<noteq> int len - 1"
  shows "snd (init_ranges fl tvol len i np vols ! k) - fst (init_ranges fl tvol len i np vols ! k) =
           cast_int (fl (fl (vol_of fl (vols ! k) / tvol) * real n_particles))"
  using assms
proof (induction vols arbitrary: i np k)
  case Nil
  then show ?case by simp
next
  case (Cons v vs)
  then obtain mn sz mat where v: "v = CubeVolume mn sz mat" by (cases v) (auto simp: all_cubes_def)
  from Cons.prems(1) have ac: "all_cubes vs" by (simp add: all_cubes_def)
  show ?case
  proof (cases k)
    case 0
    with Cons.prems(4) have "int i \<noteq> int len - 1" by simp
    then show ?thesis by (simp add: v 0 par_count_share[OF Cons.prems(2)] vol_of_cube)
  next
    case (Suc k')
    with Cons.prems(3,4) have k': "k' < length vs" and nl: "int (Suc i + k') \<noteq> int len - 1" by simp_all
    obtain pc where pc: "par_count_of fl tvol len i np (cube_volume fl sz) = Inr pc"
      using Cons.prems(2) by (simp add: par_count_of_def)
    from Cons.IH[OF ac Cons.prems(2) k' nl] show ?thesis
      unfolding v Suc init_ranges.simps pc by simp
  qed
qed

lemma chain_bounds:
  "chain a rs b \<Longrightarrow> k < length rs \<Longrightarrow> a \<le> fst (rs ! k) \<and> fst (rs ! k) \<le> snd (rs ! k) \<and> snd (rs ! k) \<le> b"
proof (induction rs arbitrary: a k)
  case Nil
  then show ?case by simp
next
  case (Cons r rs)
  obtain f l where r: "r = (f, l)" by (cases r) auto
  from Cons.prems(1) have c: "f = a" "a \<le> l" "chain l rs b" by (simp_all add: r)
  have lb: "l \<le> b"
  proof (cases rs)
    case Nil
    with c(3) show ?thesis by simp
  next
    case (Cons r' rs')
    with Cons.IH[OF c(3), of 0] show ?thesis by (simp add: local.Cons)
  qed
  show ?case
  proof (cases k)
    case 0
    with c lb show ?thesis by (simp add: r)
  next
    case (Suc k')
    with Cons.prems(2) have "k' < length rs" by simp
    from Cons.IH[OF c(3) this] c(2) show ?thesis by (simp add: Suc)
  qed
qed

lemma chain_ordered:
  "chain a rs b \<Longrightarrow> k < k' \<Longrightarrow> k' < length rs \<Longrightarrow> snd (rs ! k) \<le> fst (rs ! k')"
proof (induction rs arbitrary: a k k')
  case Nil
  then show ?case by simp
next
  case (Cons r rs)
  obtain f l where r: "r = (f, l)" by (cases r) auto
  from Cons.prems(1) have c: "chain l rs b" by (simp add: r)
  from Cons.prems(2) obtain j' where k': "k' = Suc j'" by (cases k') auto
  with Cons.prems(3) have j': "j' < length rs" by simp
  show ?case
  proof (cases k)
    case 0
    from chain_bounds[OF c j'] show ?thesis by (simp add: 0 k' r)
  next
    case (Suc j)
    with Cons.prems(2) k' have "j < j'" by simp
    from Cons.IH[OF c this j'] show ?thesis by (simp add: Suc k')
  qed
qed

lemma chain_covers:
  "chain a rs b \<Longrightarrow> a \<le> q \<Longrightarrow> q < b \<Longrightarrow> \<exists>k < length rs. fst (rs ! k) \<le> q \<and> q < snd (rs ! k)"
proof (induction rs arbitrary: a)
  case Nil
  then show ?case by simp
next
  case (Cons r rs)
  obtain f l where r: "r = (f, l)" by (cases r) auto
  from Cons.prems(1) have c: "f = a" "chain l rs b" by (simp_all add: r)
  show ?case
  proof (cases "q < l")
    case True
    with c Cons.prems(2) have "fst ((r # rs) ! 0) \<le> q \<and> q < snd ((r # rs) ! 0)" by (simp add: r)
    then show ?thesis by blast
  next
    case False
    then have "l \<le> q" by simp
    from Cons.IH[OF c(2) this Cons.prems(3)] obtain k where "k < length rs" "fst (rs ! k) \<le> q \<and> q < snd (rs ! k)"
      by blast
    then have "Suc k < length (r # rs)" "fst ((r # rs) ! Suc k) \<le> q \<and> q < snd ((r # rs) ! Suc k)" by simp_all
    then show ?thesis by blast
  qed
qed

lemma chain_le: "chain a rs b \<Longrightarrow> a \<le> b"
proof (induction rs arbitrary: a)
  case Nil
  then show ?case by simp
next
  case (Cons r rs)
  obtain f l where r: "r = (f, l)" by (cases r) auto
  from Cons.prems have "a \<le> l" "chain l rs b" by (simp_all add: r)
  with Cons.IH[of l] show ?case by simp
qed

lemma init_cube_vol_Inr:
  assumes "0 \<le> f" and "l \<le> int n_particles"
  shows "\<exists>s1. init_cube_vol rnd f l xb yb zb xs ys zs mat s = Inr s1 \<and>
           is_used s1 q = (if in_range f l q then 1 else is_used s q) \<and>
           materials s1 q = (if in_range f l q then mat else materials s q)"
  using assms by (simp add: init_cube_vol_def)

lemma init_loop_state:
  assumes "all_cubes vols" and "tvol \<noteq> 0" and "chain np (init_ranges fl tvol len i np vols) b"
    and "0 \<le> np" and "b \<le> int n_particles"
  shows "\<exists>s'. init_loop fl rnd tvol len i np vols s = (None, s') \<and>
           ((\<forall>k < length vols. \<not> in_range (fst (init_ranges fl tvol len i np vols ! k))
                                          (snd (init_ranges fl tvol len i np vols ! k)) q) \<longrightarrow>
              is_used s' q = is_used s q \<and> materials s' q = materials s q) \<and>
           (\<forall>k < length vols. in_range (fst (init_ranges fl tvol len i np vols ! k))
                                        (snd (init_ranges fl tvol len i np vols ! k)) q \<longrightarrow>
              is_used s' q = 1 \<and> (\<forall>mn sz mat. vols ! k = CubeVolume mn sz mat \<longrightarrow> materials s' q = mat))"
  using assms
proof (induction vols arbitrary: i np s)
  case Nil
  then show ?case by simp
next
  case (Cons v vs)
  then obtain mn sz mat where v: "v = CubeVolume mn sz mat" by (cases v) (auto simp: all_cubes_def)
  from Cons.prems(1) have ac: "all_cubes vs" by (simp add: all_cubes_def)
  obtain pc where pc: "par_count_of fl tvol len i np (cube_volume fl sz) = Inr pc"
    using Cons.prems(2) by (simp add: par_count_of_def)
  let ?rs = "init_ranges fl tvol len (Suc i) (np + pc) vs"
  have rs: "init_ranges fl tvol len i np (v # vs) = (np, np + pc) # ?rs"
    unfolding v init_ranges.simps pc by simp
  from Cons.prems(3) have c: "np \<le> np + pc" "chain (np + pc) ?rs b" by (simp_all add: rs)
  from chain_le[OF c(2)] Cons.prems(5) have ub: "np + pc \<le> int n_particles" by simp
  from init_cube_vol_Inr[OF Cons.prems(4) ub] obtain s1 where
    s1: "init_cube_vol (rnd i) np (np + pc) (vget mn 0) (vget mn 1) (vget mn 2)
           (vget sz 0) (vget sz 1) (vget sz 2) mat s = Inr s1"
    and u1: "is_used s1 q = (if in_range np (np + pc) q then 1 else is_used s q)"
    and m1: "materials s1 q = (if in_range np (np + pc) q then mat else materials s q)"
    by blast
  from Cons.prems(4) c(1) have np': "0 \<le> np + pc" by simp
  from Cons.IH[OF ac Cons.prems(2) c(2) np' Cons.prems(5), of s1] obtain s' where
    l: "init_loop fl rnd tvol len (Suc i) (np + pc) vs s1 = (None, s')"
    and out: "(\<forall>k < length vs. \<not> in_range (fst (?rs ! k)) (snd (?rs ! k)) q) \<longrightarrow>
              is_used s' q = is_used s1 q \<and> materials s' q = materials s1 q"
    and ins: "\<forall>k < length vs. in_range (fst (?rs ! k)) (snd (?rs ! k)) q \<longrightarrow>
              is_used s' q = 1 \<and> (\<forall>mn sz mat. vs ! k = CubeVolume mn sz mat \<longrightarrow> materials s' q = mat)"
    by blast
  have len: "length ?rs = length vs" by (rule init_ranges_length[OF ac Cons.prems(2)])
  have loop: "init_loop fl rnd tvol len i np (v # vs) s = (None, s')"
    unfolding v init_loop.simps pc sum.case s1 by (rule l)
  have first: "is_used s' q = 1 \<and> materials s' q = mat" if r: "in_range np (np + pc) q"
  proof -
    have "\<not> in_range (fst (?rs ! k)) (snd (?rs ! k)) q" if "k < length vs" for k
    proof -
      from that len have "k < length ?rs" by simp
      from chain_bounds[OF c(2) this] r show ?thesis by (simp add: in_range_def)
    qed
    with out u1 m1 r show ?thesis by simp
  qed
  have A: "(\<forall>k < length (v # vs). \<not> in_range (fst (init_ranges fl tvol len i np (v # vs) ! k))
                                          (snd (init_ranges fl tvol len i np (v # vs) ! k)) q) \<longrightarrow>
              is_used s' q = is_used s q \<and> materials s' q = materials s q"
  proof
    assume h: "\<forall>k < length (v # vs). \<not> in_range (fst (init_ranges fl tvol len i np (v # vs) ! k))
                                          (snd (init_ranges fl tvol len i np (v # vs) ! k)) q"
    from h[rule_format, of 0] have n0: "\<not> in_range np (np + pc) q" by (simp add: rs)
    have "\<not> in_range (fst (?rs ! k)) (snd (?rs ! k)) q" if "k < length vs" for k
      using h[rule_format, of "Suc k"] that by (simp add: rs)
    with out u1 m1 n0 show "is_used s' q = is_used s q \<and> materials s' q = materials s q" by simp
  qed
  have B: "\<forall>k < length (v # vs). in_range (fst (init_ranges fl tvol len i np (v # vs) ! k))
                                        (snd (init_ranges fl tvol len i np (v # vs) ! k)) q \<longrightarrow>
              is_used s' q = 1 \<and> (\<forall>mn sz mat. (v # vs) ! k = CubeVolume mn sz mat \<longrightarrow> materials s' q = mat)"
  proof (intro allI impI)
    fix k assume k: "k < length (v # vs)"
      and r: "in_range (fst (init_ranges fl tvol len i np (v # vs) ! k)) (snd (init_ranges fl tvol len i np (v # vs) ! k)) q"
    show "is_used s' q = 1 \<and> (\<forall>mn sz mat. (v # vs) ! k = CubeVolume mn sz mat \<longrightarrow> materials s' q = mat)"
    proof (cases k)
      case 0
      with r have "in_range np (np + pc) q" by (simp add: rs)
      from first[OF this] show ?thesis by (simp add: 0 v)
    next
      case (Suc k')
      with k r have "k' < length vs" "in_range (fst (?rs ! k')) (snd (?rs ! k')) q" by (simp_all add: rs)
      with ins show ?thesis by (simp add: Suc)
    qed
  qed
  from loop A B show ?case by blast
qed




lemma init_vols_cubes:
  assumes "has_volumes vols"
  shows "init_vols fl rnd vols s =
           init_loop fl rnd (total_of fl vols) (length vols) 0 0 vols (set_all_unused s)"
  by (simp add: init_vols_def Let_def sum_volumes_eq[OF assms] total_of_def)

lemma n_particles_value: "n_particles = 524288"
  by (simp add: n_particles_def quality_def)

lemma rounds_within_no_rounding: "rounds_within no_rounding eps = (0 \<le> eps)"
proof
  assume "rounds_within no_rounding eps"
  then have "\<bar>no_rounding 1 - 1\<bar> \<le> eps * \<bar>1\<bar>" unfolding rounds_within_def by (rule spec)
  then show "0 \<le> eps" by (simp add: no_rounding_def)
next
  assume "0 \<le> eps"
  then show "rounds_within no_rounding eps" by (simp add: rounds_within_def no_rounding_def)
qed

lemma two_cubes_ranges: "vol_ranges no_rounding two_cubes = [(0, 262144), (262144, 524288)]"
  by (simp add: vol_ranges_def total_of_def two_cubes_def vol_of_def cube_volume_def no_rounding_def
      par_count_of_def cast_int_def n_particles_value)

lemma inverted_cube_ranges:
  "vol_ranges no_rounding inverted_cube = [(0, 524288), (524288, 262144), (262144, 524288)]"
  by (simp add: vol_ranges_def total_of_def inverted_cube_def vol_of_def cube_volume_def no_rounding_def
      par_count_of_def cast_int_def n_particles_value)

text \<open>
  The list \<open>float_cubes\<close>: the first cuboid gets 409599 particles, whereas the floor of
  its share of the \<open>n_particles\<close> particles in exact arithmetic is 409600.
\<close>

lemma rounding_of_example_within: "rounds_within rounding_of_example unit_roundoff"
  by (simp add: rounds_within_def rounding_of_example_def unit_roundoff_def)

lemma float_cubes_total: "total_of rounding_of_example float_cubes = 1297036692682703 / 2 ^ 51"
  by (simp add: total_of_def float_cubes_def vol_of_def cube_volume_def rounding_of_example_def)

lemma float_cubes_ranges:
  "vol_ranges rounding_of_example float_cubes = [(0, 409599), (409599, 524288)]"
  unfolding vol_ranges_def float_cubes_total
  by (simp add: float_cubes_def vol_of_def cube_volume_def rounding_of_example_def
      par_count_of_def cast_int_def n_particles_value)

lemma float_cubes_exact_share:
  "\<lfloor>vol_of rounding_of_example (float_cubes ! 0) / exact_sum rounding_of_example float_cubes
      * real n_particles\<rfloor> = 409600"
  by (simp add: exact_sum_def float_cubes_def vol_of_def cube_volume_def rounding_of_example_def
      n_particles_value)

section \<open>Claims on the interpolation kernel and the momentum step\<close>

text \<open>
  Claim C5. For every fractional offset the three quadratic weights sum to 1 on each
  axis, in the list that \<^verbatim>\<open>substep_p2g\<close> builds and in the list that \<^verbatim>\<open>substep_g2p\<close>
  builds, and the two lists are the same.
\<close>

theorem weight_partition:
  "vadd (vadd (p2g_weights fx ! 0) (p2g_weights fx ! 1)) (p2g_weights fx ! 2) = (1, 1, 1) \<and>
   vadd (vadd (g2p_weights fx ! 0) (g2p_weights fx ! 1)) (g2p_weights fx ! 2) = (1, 1, 1) \<and>
   g2p_weights fx = p2g_weights fx"
  by (cases fx) (simp add: p2g_weights_def g2p_weights_def vadd_def power2_eq_square algebra_simps)

text \<open>
  Claim C9. The momentum step never faults, so its one division never has the
  divisor zero; it changes no mass; a node whose mass is not greater than 0 keeps its
  velocity, so a node of mass zero that holds the zero vector of the zero-out stage
  still holds it.
\<close>

theorem zero_mass_skipped:
  "\<exists>s'. substep_grid gravity s = Inr s' \<and> grid_m s' = grid_m s \<and>
        (\<forall>I. \<not> 0 < grid_m s I \<longrightarrow> grid_v s' I = grid_v s I) \<and>
        (\<forall>I. grid_m s I = 0 \<and> grid_v s I = vzero \<longrightarrow> grid_v s' I = vzero)"
  by (simp add: substep_grid_eq)

text \<open>The witness of C9: the corner node of the empty grid, under the default gravity.\<close>

theorem zero_mass_skipped_witness:
  "\<not> 0 < grid_m blank_state (0, 0, 0) \<and> grid_m blank_state (0, 0, 0) = 0 \<and>
   grid_v blank_state (0, 0, 0) = vzero \<and>
   (\<exists>s'. substep_grid (- 9.8) blank_state = Inr s' \<and> grid_m s' = grid_m blank_state \<and>
         grid_v s' (0, 0, 0) = grid_v blank_state (0, 0, 0) \<and> grid_v s' (0, 0, 0) = vzero)"
proof -
  have m: "grid_m blank_state (0, 0, 0) = 0" and v: "grid_v blank_state (0, 0, 0) = vzero"
    by (simp_all add: blank_state_def)
  from zero_mass_skipped[of "- 9.8" blank_state] obtain s' where
    s': "substep_grid (- 9.8) blank_state = Inr s'" "grid_m s' = grid_m blank_state"
      "\<forall>I. \<not> 0 < grid_m blank_state I \<longrightarrow> grid_v s' I = grid_v blank_state I"
    by blast
  from s'(3) m have "grid_v s' (0, 0, 0) = grid_v blank_state (0, 0, 0)" by simp
  with s' m v show ?thesis by simp
qed

text \<open>
  Claim C1, as amended. After the momentum step, a node of the grid that has positive
  mass, or that still holds the zero vector, has on every axis a velocity component
  that is not negative where its index is below \<open>bound\<close> and not positive where its
  index is above \<open>n_grid - bound\<close>.
\<close>

theorem boundary_containment:
  assumes "in_grid I" and "0 < grid_m s I \<or> grid_v s I = vzero"
  shows "\<exists>s'. substep_grid gravity s = Inr s' \<and> contained I (grid_v s' I)"
proof (cases "0 < grid_m s I")
  case True
  then show ?thesis using assms(1) by (simp add: substep_grid_eq contained_boundary)
next
  case False
  with assms(2) have "grid_v s I = vzero" by simp
  then show ?thesis using False by (simp add: substep_grid_eq contained_def vzero_def)
qed

text \<open>The witness of C1: node \<open>(126, 5, 5)\<close> of the moving grid.\<close>

theorem boundary_containment_witness:
  "in_grid (126, 5, 5) \<and> 0 < grid_m moving_grid (126, 5, 5) \<and>
   (\<exists>s'. substep_grid 0 moving_grid = Inr s' \<and> contained (126, 5, 5) (grid_v s' (126, 5, 5)))"
proof -
  have a: "in_grid (126, 5, 5)" by (simp add: n_grid_def quality_def)
  have b: "0 < grid_m moving_grid (126, 5, 5)" by (simp add: moving_grid_def)
  from boundary_containment[OF a disjI1[OF b], of 0] a b show ?thesis by blast
qed

text \<open>
  The counterexample of C1: index 125 is \<open>n_grid - bound\<close>, inside the band
  \<open>[n_grid - bound, n_grid)\<close> of the claim, and the node keeps its velocity 1 toward
  the upper face.
\<close>

theorem boundary_band_counterexample:
  "in_grid (125, 5, 5) \<and> n_grid - bound \<le> 125 \<and> 125 < n_grid \<and>
   grid_v_after 0 moving_grid (125, 5, 5) = Inr (1, 0, 0) \<and>
   0 < vget (1 :: real, 0 :: real, 0 :: real) 0"
  by (simp add: grid_v_after_def substep_grid_eq moving_grid_def blank_state_def
      grid_boundary_eq smul_def n_grid_def quality_def bound_def)

section \<open>Claims on the constitutive update\<close>



text \<open>
  Claim C7. Let \<open>(U, sig, V)\<close> be the decomposition of the predicted \<open>F\<close> of an active
  particle. For snow, the loop replaces each singular value by its clamp to
  \<open>[1 - 2.5e-2, 1 + 4.5e-3]\<close>, \<open>J\<close> is the product of the clamped values, \<open>Jp\<close> is
  multiplied by the three ratios of a singular value to its clamp, and \<open>F\<close> becomes
  \<open>U * sig' * V\<^sup>T\<close> with the clamped diagonal. For jelly, the singular values stay as
  they are, \<open>J\<close> is their product, and \<open>F\<close> keeps the predicted value.
\<close>

theorem plasticity_update:
  assumes "substep_p2g svd s = Inr s'" and "p < n_particles" and "is_used s p \<noteq> 0"
    and "svd (predicted_F s p) = (U, sig, V)"
  shows "(materials s p = SNOW \<longrightarrow>
            plasticity SNOW (Jp s p) sig =
              (Jp s' p,
               with_diagonal sig (snow_clamp (mget sig 0 0)) (snow_clamp (mget sig 1 1)) (snow_clamp (mget sig 2 2)),
               snow_clamp (mget sig 0 0) * snow_clamp (mget sig 1 1) * snow_clamp (mget sig 2 2)) \<and>
            Jp s' p = fmul (Jp s p) (Some (mget sig 0 0 / snow_clamp (mget sig 0 0)
                                          * (mget sig 1 1 / snow_clamp (mget sig 1 1))
                                          * (mget sig 2 2 / snow_clamp (mget sig 2 2)))) \<and>
            F_p s' p = mmul (mmul U (with_diagonal sig (snow_clamp (mget sig 0 0)) (snow_clamp (mget sig 1 1))
                                       (snow_clamp (mget sig 2 2))))
                            (mtranspose V)) \<and>
         (materials s p = JELLY \<longrightarrow>
            (\<exists>jp'. plasticity JELLY (Jp s p) sig = (jp', sig, mget sig 0 0 * mget sig 1 1 * mget sig 2 2)) \<and>
            F_p s' p = predicted_F s p)"
proof -
  from substep_p2g_particle[OF assms(1-3)] obtain affine where
    c: "constitutive svd (materials s p) (C_p s p) (F_p s p) (Jp s p) = Inr (F_p s' p, Jp s' p, affine)" ..
  have snow: ?thesis if m: "materials s p = SNOW"
  proof -
    have nw: "materials s p \<noteq> WATER" by (simp add: m SNOW_def WATER_def)
    from constitutive_elastic[OF c nw assms(4)[unfolded predicted_F_def]] obtain J where
      p: "plasticity SNOW (Jp s p) sig =
           (Jp s' p, with_diagonal sig (snow_clamp (mget sig 0 0)) (snow_clamp (mget sig 1 1))
                   (snow_clamp (mget sig 2 2)), J)"
      and F: "F_p s' p = mmul (mmul U (with_diagonal sig (snow_clamp (mget sig 0 0))
                                    (snow_clamp (mget sig 1 1)) (snow_clamp (mget sig 2 2))))
                         (mtranspose V)"
      by (auto simp: m new_sig_snow)
    from p have J: "J = snow_clamp (mget sig 0 0) * snow_clamp (mget sig 1 1) * snow_clamp (mget sig 2 2)"
      and jp: "Jp s' p = fmul (fmul (fmul (Jp s p) (fdiv (mget sig 0 0) (snow_clamp (mget sig 0 0))))
                 (fdiv (mget sig 1 1) (snow_clamp (mget sig 1 1))))
           (fdiv (mget sig 2 2) (snow_clamp (mget sig 2 2)))"
      by (simp_all add: plasticity_eq new_sig_snow)
    from jp have "Jp s' p = fmul (Jp s p) (Some (mget sig 0 0 / snow_clamp (mget sig 0 0)
                                          * (mget sig 1 1 / snow_clamp (mget sig 1 1))
                                          * (mget sig 2 2 / snow_clamp (mget sig 2 2))))"
      by (simp only: fdiv_pos[OF snow_clamp_pos] fmul_three)
    with p J F m show ?thesis by (simp add: SNOW_def JELLY_def)
  qed
  have jelly: ?thesis if m: "materials s p = JELLY"
  proof -
    have nw: "materials s p \<noteq> WATER" and ns: "JELLY \<noteq> SNOW" by (simp_all add: m SNOW_def WATER_def JELLY_def)
    from constitutive_elastic[OF c nw assms(4)[unfolded predicted_F_def]]
    have F: "F_p s' p = predicted_F s p"
      by (auto simp: m ns predicted_F_def)
    have "\<exists>jp'. plasticity JELLY (Jp s p) sig = (jp', sig, mget sig 0 0 * mget sig 1 1 * mget sig 2 2)"
      unfolding plasticity_eq new_sig_other[OF ns] with_diagonal_same by simp
    with F m show ?thesis by (simp add: SNOW_def JELLY_def)
  qed
  show ?thesis
  proof (cases "materials s p = SNOW \<or> materials s p = JELLY")
    case True
    with snow jelly show ?thesis by blast
  next
    case False
    then show ?thesis by simp
  qed
qed

text \<open>
  The witness of C7: a snow particle with \<open>F = diag(0.9, 1, 1.1)\<close>, whose singular
  values are clamped to \<open>0.975\<close>, \<open>1\<close> and \<open>1.0045\<close>, and a jelly particle at rest.
\<close>

theorem plasticity_update_witness:
  "0 < n_particles \<and> is_used squeezed_snow 0 \<noteq> 0 \<and> materials squeezed_snow 0 = SNOW \<and>
   is_svd (predicted_F squeezed_snow 0) (svd_diag (predicted_F squeezed_snow 0)) \<and>
   (\<exists>s'. substep_p2g svd_diag squeezed_snow = Inr s' \<and>
         F_p s' 0 = ((975 / 1000, 0, 0), (0, 1, 0), (0, 0, 10045 / 10000)) \<and>
         Jp s' 0 = Some ((9 / 10) / (975 / 1000) * (1 / 1) * ((11 / 10) / (10045 / 10000)))) \<and>
   is_used (one_particle JELLY) 0 \<noteq> 0 \<and> materials (one_particle JELLY) 0 = JELLY \<and>
   is_svd (predicted_F (one_particle JELLY) 0) (svd_diag (predicted_F (one_particle JELLY) 0)) \<and>
   (\<exists>s'. substep_p2g svd_diag (one_particle JELLY) = Inr s' \<and> F_p s' 0 = mident)"
proof -
  let ?D = "((9 / 10, 0, 0), (0, 1, 0), (0, 0, 11 / 10)) :: mat3"
  have u: "is_used squeezed_snow 0 \<noteq> 0" and m: "materials squeezed_snow 0 = SNOW"
    and j: "Jp squeezed_snow 0 = Some 1"
    by (simp_all add: squeezed_snow_def one_particle_def blank_state_def)
  have sv: "svd_diag (predicted_F squeezed_snow 0) = (mident, ?D, mident)"
    by (simp add: predicted_squeezed svd_diag_def)
  have v1: "is_svd (predicted_F squeezed_snow 0) (svd_diag (predicted_F squeezed_snow 0))"
    unfolding predicted_squeezed by (rule is_svd_diag) simp_all
  from substep_p2g_total[OF squeezed_snow_ready] obtain s1 where s1: "substep_p2g svd_diag squeezed_snow = Inr s1"
    by blast
  from plasticity_update[OF s1 n_particles_pos u sv] m
  have "Jp s1 0 = fmul (Jp squeezed_snow 0) (Some (mget ?D 0 0 / snow_clamp (mget ?D 0 0)
                                          * (mget ?D 1 1 / snow_clamp (mget ?D 1 1))
                                          * (mget ?D 2 2 / snow_clamp (mget ?D 2 2))))"
    and "F_p s1 0 = mmul (mmul mident (with_diagonal ?D (snow_clamp (mget ?D 0 0)) (snow_clamp (mget ?D 1 1))
                                       (snow_clamp (mget ?D 2 2))))
                            (mtranspose mident)"
    by blast+
  then have a: "Jp s1 0 = Some ((9 / 10) / (975 / 1000) * (1 / 1) * ((11 / 10) / (10045 / 10000)))"
    and b: "F_p s1 0 = ((975 / 1000, 0, 0), (0, 1, 0), (0, 0, 10045 / 10000))"
    by (simp_all add: j mget_def snow_clamp_def spec_clamp_def with_diagonal_def mset_def
        mmul_def mident_def mtranspose_def mcol_def)
  let ?t = "one_particle JELLY"
  have u': "is_used ?t 0 \<noteq> 0" and m': "materials ?t 0 = JELLY"
    by (simp_all add: one_particle_def blank_state_def)
  have sv': "svd_diag (predicted_F ?t 0) = (mident, mident, mident)"
    by (simp add: predicted_rest svd_diag_def)
  have v2: "is_svd (predicted_F ?t 0) (svd_diag (predicted_F ?t 0))"
    unfolding predicted_rest mident_def by (rule is_svd_diag) simp_all
  from substep_p2g_total[OF one_particle_ready] obtain s2 where s2: "substep_p2g svd_diag ?t = Inr s2"
    by blast
  from plasticity_update[OF s2 n_particles_pos u' sv'] m' have c: "F_p s2 0 = mident"
    by (simp add: predicted_rest)
  from u m v1 s1 a b u' m' v2 s2 c n_particles_pos show ?thesis by blast
qed

text \<open>
  Claim C10, as amended. For an active jelly particle whose predicted \<open>F\<close> has no
  singular value zero, the particle-to-grid kernel leaves \<open>Jp\<close> unchanged, so over a
  whole substep \<open>Jp\<close> is multiplied once, by \<open>1 + dt * trace(C)\<close> in the
  grid-to-particle kernel.
\<close>

theorem jelly_keeps_Jp:
  assumes "p < n_particles" and "is_used s p \<noteq> 0" and "materials s p = JELLY"
    and "svd (predicted_F s p) = (U, sig, V)"
    and "mget sig 0 0 \<noteq> 0 \<and> mget sig 1 1 \<noteq> 0 \<and> mget sig 2 2 \<noteq> 0"
  shows "(\<forall>s'. substep_p2g svd s = Inr s' \<longrightarrow> Jp s' p = Jp s p) \<and>
         (\<forall>gravity s'. substep svd gravity s = Inr s' \<longrightarrow>
            Jp s' p = fmul (Jp s p) (Some (1 + dt * mtrace (C_p s' p))))"
proof -
  have ns: "JELLY \<noteq> SNOW" and nw: "JELLY \<noteq> WATER" by (simp_all add: SNOW_def WATER_def JELLY_def)
  have keep: "Jp t' p = Jp t p"
    if t: "substep_p2g svd t = Inr t'" and eq: "is_used t p = is_used s p" "materials t p = materials s p"
      "C_p t p = C_p s p" "F_p t p = F_p s p" for t t'
  proof -
    from assms(2) eq have "is_used t p \<noteq> 0" by simp
    from substep_p2g_particle[OF t assms(1) this] obtain affine where
      c: "constitutive svd JELLY (C_p s p) (F_p s p) (Jp t p) = Inr (F_p t' p, Jp t' p, affine)"
      unfolding eq assms(3) ..
    from constitutive_elastic[OF c nw assms(4)[unfolded predicted_F_def]]
    have "Jp t' p = fst (plasticity JELLY (Jp t p) sig)" by auto
    also have "\<dots> = Jp t p"
      using assms(5) by (simp add: plasticity_eq new_sig_other[OF ns] fdiv_self fmul_one)
    finally show ?thesis .
  qed
  show ?thesis
  proof (intro conjI allI impI)
    fix s' assume "substep_p2g svd s = Inr s'"
    then show "Jp s' p = Jp s p" by (rule keep) simp_all
  next
    fix gravity s' assume "substep svd gravity s = Inr s'"
    then obtain s1 s2 where a: "substep_p2g svd (substep_zero_out s) = Inr s1"
      and b: "substep_grid gravity s1 = Inr s2" and c: "substep_g2p s2 = Inr s'"
      by (auto simp: substep_def split: sum.splits)
    from keep[OF a] have "Jp s1 p = Jp s p" by (simp add: substep_zero_out_def)
    with substep_grid_fields[OF b] have j: "Jp s2 p = Jp s p" by simp
    from substep_p2g_fields[OF a] substep_grid_fields[OF b] assms(2) have "is_used s2 p \<noteq> 0"
      by (simp add: substep_zero_out_def)
    from substep_g2p_particle[OF c assms(1) this] j
    show "Jp s' p = fmul (Jp s p) (Some (1 + dt * mtrace (C_p s' p)))" by simp
  qed
qed

text \<open>The witness of C10: one jelly particle at rest.\<close>

theorem jelly_keeps_Jp_witness:
  "0 < n_particles \<and> is_used (one_particle JELLY) 0 \<noteq> 0 \<and> materials (one_particle JELLY) 0 = JELLY \<and>
   svd_diag (predicted_F (one_particle JELLY) 0) = (mident, mident, mident) \<and>
   mget mident 0 0 \<noteq> 0 \<and> mget mident 1 1 \<noteq> 0 \<and> mget mident 2 2 \<noteq> 0 \<and>
   (\<exists>s'. substep_p2g svd_diag (one_particle JELLY) = Inr s' \<and> Jp s' 0 = Some 1) \<and>
   (\<exists>s'. substep svd_diag (- 9.8) (one_particle JELLY) = Inr s' \<and>
         Jp s' 0 = fmul (Some 1) (Some (1 + dt * mtrace (C_p s' 0))))"
proof -
  let ?t = "one_particle JELLY"
  have u: "is_used ?t 0 \<noteq> 0" and m: "materials ?t 0 = JELLY" and j: "Jp ?t 0 = Some 1"
    by (simp_all add: one_particle_def blank_state_def)
  have sv: "svd_diag (predicted_F ?t 0) = (mident, mident, mident)"
    by (simp add: predicted_rest svd_diag_def)
  have nz: "mget mident 0 0 \<noteq> 0 \<and> mget mident 1 1 \<noteq> 0 \<and> mget mident 2 2 \<noteq> 0"
    by (simp add: mget_def mident_def)
  note w = jelly_keeps_Jp[where svd = svd_diag, OF n_particles_pos u m sv nz]
  from substep_p2g_total[OF one_particle_ready] obtain s1 where s1: "substep_p2g svd_diag ?t = Inr s1"
    by blast
  with w j have a: "Jp s1 0 = Some 1" by simp
  from substep_total[OF one_particle_ready] obtain s2 where s2: "substep svd_diag (- 9.8) ?t = Inr s2"
    by blast
  with w j have b: "Jp s2 0 = fmul (Some 1) (Some (1 + dt * mtrace (C_p s2 0)))" by metis
  from u m sv nz s1 a s2 b n_particles_pos show ?thesis by blast
qed

text \<open>
  The counterexample of C10: the predicted \<open>F\<close> of the collapsing jelly particle is
  the zero matrix; the ratio of a singular value to itself is \<open>0 / 0\<close>, and \<open>Jp\<close>,
  which was 1, is a NaN after the kernel.
\<close>

theorem jelly_Jp_counterexample:
  "is_used collapsing_jelly 0 \<noteq> 0 \<and> materials collapsing_jelly 0 = JELLY \<and>
   Jp collapsing_jelly 0 = Some 1 \<and>
   is_svd (predicted_F collapsing_jelly 0) (svd_diag (predicted_F collapsing_jelly 0)) \<and>
   Jp_after_p2g svd_diag collapsing_jelly 0 = Inr None"
proof -
  let ?t = "collapsing_jelly"
  let ?D = "((0, 0, 0), (0, 0, 0), (0, 0, 0)) :: mat3"
  have u: "is_used ?t 0 \<noteq> 0" and m: "materials ?t 0 = JELLY" and j: "Jp ?t 0 = Some 1"
    by (simp_all add: collapsing_jelly_def one_particle_def blank_state_def)
  have v: "is_svd (predicted_F ?t 0) (svd_diag (predicted_F ?t 0))"
    unfolding predicted_collapsing by (rule is_svd_diag) simp_all
  have sv: "svd_diag (mmul (madd mident (msmul dt (C_p ?t 0))) (F_p ?t 0)) = (mident, ?D, mident)"
    using predicted_collapsing by (simp add: predicted_F_def svd_diag_def)
  have nw: "JELLY \<noteq> WATER" and ns: "JELLY \<noteq> SNOW" by (simp_all add: SNOW_def WATER_def JELLY_def)
  from substep_p2g_total[OF collapsing_jelly_ready] obtain s1 where s1: "substep_p2g svd_diag ?t = Inr s1"
    by blast
  from substep_p2g_particle[OF s1 n_particles_pos u] obtain affine where
    c: "constitutive svd_diag JELLY (C_p ?t 0) (F_p ?t 0) (Jp ?t 0) = Inr (F_p s1 0, Jp s1 0, affine)"
    unfolding m ..
  from constitutive_elastic[OF c nw sv] have "Jp s1 0 = fst (plasticity JELLY (Jp ?t 0) ?D)" by auto
  also have "\<dots> = None"
    by (simp add: plasticity_eq new_sig_other[OF ns] fdiv_def mget_def j)
  finally have "Jp_after_p2g svd_diag ?t 0 = Inr None" by (simp add: Jp_after_p2g_def s1)
  with u m j v show ?thesis by blast
qed

section \<open>Claims on the transfers\<close>

text \<open>
  Claim C4. On a zeroed grid the particle-to-grid kernel returns whenever every active
  particle addresses the grid inside its shape (and holds no NaN that the stress
  reads), and whenever it returns, the sum of the masses of all grid nodes is the
  number of active particles times \<open>p_mass\<close>, for every state and every mix of
  materials.
\<close>

theorem mass_conservation:
  "(p2g_ready s \<longrightarrow> (\<exists>s'. substep_p2g svd (substep_zero_out s) = Inr s')) \<and>
   (\<forall>s'. substep_p2g svd (substep_zero_out s) = Inr s' \<longrightarrow>
      total_mass s' = real (active_count s) * p_mass)"
proof (intro conjI allI impI)
  assume "p2g_ready s"
  then have "p2g_ready (substep_zero_out s)" by (simp add: p2g_ready_def substep_zero_out_def)
  then show "\<exists>s'. substep_p2g svd (substep_zero_out s) = Inr s'" by (rule substep_p2g_total)
next
  fix s' assume "substep_p2g svd (substep_zero_out s) = Inr s'"
  from p2g_fold_mass[OF this[unfolded substep_p2g_def]]
  have "total_mass s' = real (length (filter (\<lambda>p. is_used (substep_zero_out s) p \<noteq> 0) [0..<n_particles])) * p_mass"
    by (simp add: zero_out_mass)
  then show "total_mass s' = real (active_count s) * p_mass"
    by (simp add: active_count_def substep_zero_out_fields)
qed

text \<open>The witness of C4: one snow particle in the middle of the domain.\<close>

theorem mass_conservation_witness:
  "p2g_ready (one_particle SNOW) \<and>
   (\<exists>s'. substep_p2g svd_diag (substep_zero_out (one_particle SNOW)) = Inr s' \<and>
         total_mass s' = real (active_count (one_particle SNOW)) * p_mass \<and>
         total_mass s' = p_mass)"
proof -
  note r = one_particle_ready[of SNOW]
  with mass_conservation[of "one_particle SNOW" svd_diag] obtain s' where
    s': "substep_p2g svd_diag (substep_zero_out (one_particle SNOW)) = Inr s'" by blast
  with mass_conservation[of "one_particle SNOW" svd_diag]
  have "total_mass s' = real (active_count (one_particle SNOW)) * p_mass" by blast
  with r s' show ?thesis by (auto simp: active_count_one)
qed

text \<open>
  Claim C3, as amended. After the grid-to-particle kernel the position of every active
  particle is its position before the kernel plus \<open>dt\<close> times the velocity gathered
  from its 27 neighbours; the kernel applies no clamp to it.
\<close>

theorem g2p_advection:
  assumes "substep_g2p s = Inr s'" and "p < n_particles" and "is_used s p \<noteq> 0"
  shows "x_p s' p = vadd (x_p s p) (smul dt (v_p s' p)) \<and>
         foldE (gather_node s (base_of (x_p s p)) (fx_of (x_p s p)) (g2p_weights (fx_of (x_p s p))))
           offsets (vzero, mzero) = Inr (v_p s' p, C_p s' p)"
  using substep_g2p_particle[OF assms] by simp

text \<open>The witness of C3: the particle in the fast grid moves from 0.5 to 1.5.\<close>

theorem g2p_advection_witness:
  "0 < n_particles \<and> is_used fast_grid 0 \<noteq> 0 \<and>
   (\<exists>s'. substep_g2p fast_grid = Inr s' \<and> v_p s' 0 = (10000, 0, 0) \<and>
         x_p s' 0 = vadd (1 / 2, 1 / 2, 1 / 2) (smul dt (10000, 0, 0)) \<and> x_p s' 0 = (3 / 2, 1 / 2, 1 / 2))"
proof -
  from substep_g2p_total[OF fast_grid_ready] obtain s' where s': "substep_g2p fast_grid = Inr s'" by blast
  from fast_grid_particle have u: "is_used fast_grid 0 \<noteq> 0" ..
  note a = g2p_advection[OF s' n_particles_pos u]
  from a have v: "v_p s' 0 = (10000, 0, 0)" by (intro fast_grid_velocity[of _ "C_p s' 0"]) simp
  with a have x: "x_p s' 0 = vadd (1 / 2, 1 / 2, 1 / 2) (smul dt (10000, 0, 0))"
    by (simp add: fast_grid_particle)
  then have "x_p s' 0 = (3 / 2, 1 / 2, 1 / 2)" by (simp add: vadd_def smul_def dt_def)
  with s' u v x n_particles_pos show ?thesis by blast
qed

text \<open>
  The counterexample of C3: the particle of the fast grid addresses the grid inside
  its shape before the kernel; after it, its position is \<open>(1.5, 0.5, 0.5)\<close>, outside the
  domain, and its base index 191 is no index of the grid.
\<close>

theorem g2p_no_clamp_counterexample:
  "is_used fast_grid 0 \<noteq> 0 \<and> neighbours_in_grid (x_p fast_grid 0) \<and>
   x_after_g2p fast_grid 0 = Inr (3 / 2, 1 / 2, 1 / 2) \<and>
   base_of (3 / 2, 1 / 2, 1 / 2) = (191, 63, 63) \<and> \<not> in_grid (191, 63, 63) \<and>
   \<not> neighbours_in_grid (3 / 2, 1 / 2, 1 / 2)"
proof -
  from substep_g2p_total[OF fast_grid_ready] obtain s' where s': "substep_g2p fast_grid = Inr s'" by blast
  from fast_grid_particle have u: "is_used fast_grid 0 \<noteq> 0" ..
  note a = substep_g2p_particle[OF s' n_particles_pos u]
  from a have "v_p s' 0 = (10000, 0, 0)" by (intro fast_grid_velocity[of _ "C_p s' 0"]) simp
  with a have "x_p s' 0 = (3 / 2, 1 / 2, 1 / 2)"
    by (simp add: fast_grid_particle vadd_def smul_def dt_def)
  with s' have "x_after_g2p fast_grid 0 = Inr (3 / 2, 1 / 2, 1 / 2)" by (simp add: x_after_g2p_def)
  moreover have "\<not> in_grid (191, 63, 63)" by (simp add: n_grid_def quality_def)
  moreover have "neighbours_in_grid (x_p fast_grid 0)" by (simp add: fast_grid_particle neighbours_mid)
  ultimately show ?thesis using u base_of_out neighbours_out by blast
qed

section \<open>Claims on the initialisation\<close>

text \<open>
  Claim C6, as amended. The arithmetic of \<^verbatim>\<open>init_vols\<close> is float64 arithmetic: let
  every rounding have a relative error of at most \<open>1 / 2 ^ 53\<close>. For every list of at
  most \<open>n_particles\<close> cuboids whose volumes are not negative and whose total volume is
  positive, \<^verbatim>\<open>init_vols\<close> returns without an error and hands one range to each
  cuboid; the ranges follow one another from 0 to \<open>n_particles\<close>, none has a negative
  length, the length of every range but the last is the integer part of the rounded
  product of \<open>n_particles\<close> and the rounded quotient of the cuboid's volume by the
  total, every particle index lies in a range, no two ranges overlap, and every
  particle of a range is active afterwards with the material of its cuboid. The
  volumes and their total are the rounded ones that the code computes.
\<close>

theorem volume_partition:
  assumes "rounds_within fl unit_roundoff" and "all_cubes vols" and "nonneg_volumes fl vols"
    and "0 < total_of fl vols" and "length vols \<le> n_particles"
  shows "\<exists>s'. init_vols fl rnd vols s = (None, s') \<and>
           length (vol_ranges fl vols) = length vols \<and>
           chain 0 (vol_ranges fl vols) (int n_particles) \<and>
           (\<forall>k. Suc k < length vols \<longrightarrow>
              snd (vol_ranges fl vols ! k) - fst (vol_ranges fl vols ! k) =
                \<lfloor>fl (fl (vol_of fl (vols ! k) / total_of fl vols) * real n_particles)\<rfloor>) \<and>
           (\<forall>q < n_particles. \<exists>k < length vols.
              in_range (fst (vol_ranges fl vols ! k)) (snd (vol_ranges fl vols ! k)) q) \<and>
           (\<forall>k k'. k < k' \<and> k' < length vols \<longrightarrow>
              snd (vol_ranges fl vols ! k) \<le> fst (vol_ranges fl vols ! k')) \<and>
           (\<forall>k < length vols. \<forall>q.
              in_range (fst (vol_ranges fl vols ! k)) (snd (vol_ranges fl vols ! k)) q \<longrightarrow>
              is_used s' q = 1 \<and> (\<forall>mn sz mat. vols ! k = CubeVolume mn sz mat \<longrightarrow> materials s' q = mat))"
proof -
  let ?t = "total_of fl vols"
  let ?rs = "vol_ranges fl vols"
  have e: "0 \<le> unit_roundoff" "unit_roundoff \<le> 1" by (simp_all add: unit_roundoff_def)
  from assms(4) have t0: "?t \<noteq> 0" by simp
  from assms(4) have ne: "vols \<noteq> []" by (auto simp: total_of_def)
  have len: "length ?rs = length vols"
    unfolding vol_ranges_def by (rule init_ranges_length[OF assms(2) t0])
  have ch: "chain 0 ?rs (int n_particles)"
    unfolding vol_ranges_def
  proof (rule init_ranges_chain[OF assms(1) e assms(2,3,4) ne])
    show "0 + length vols = length vols" by simp
    show "real_of_int 0 * ?t + (1 + unit_roundoff)\<^sup>2 * real n_particles * exact_sum fl vols
            \<le> (1 + unit_roundoff)\<^sup>2 * real n_particles * exact_sum fl vols"
      by simp
    show "(1 + unit_roundoff)\<^sup>2 * real n_particles * exact_sum fl vols < (real n_particles + 1) * ?t"
      by (rule share_budget[OF assms(1,3,4,5)])
  qed
  have sh: "snd (?rs ! k) - fst (?rs ! k) = \<lfloor>fl (fl (vol_of fl (vols ! k) / ?t) * real n_particles)\<rfloor>"
    if k: "Suc k < length vols" for k
  proof -
    from k have k': "k < length vols" and nl: "int (0 + k) \<noteq> int (length vols) - 1" by simp_all
    from assms(3) k' have "0 \<le> vol_of fl (vols ! k)" by (simp add: nonneg_volumes_def list_all_length)
    from share_bounds(1)[OF assms(1) e this assms(4), of "real n_particles"]
    have "0 \<le> fl (fl (vol_of fl (vols ! k) / ?t) * real n_particles)" by simp
    then have "cast_int (fl (fl (vol_of fl (vols ! k) / ?t) * real n_particles)) =
                 \<lfloor>fl (fl (vol_of fl (vols ! k) / ?t) * real n_particles)\<rfloor>"
      by (simp add: cast_int_def)
    with init_ranges_share[OF assms(2) t0 k' nl, of fl 0] show ?thesis by (simp add: vol_ranges_def)
  qed
  have cov: "\<exists>k < length vols. in_range (fst (?rs ! k)) (snd (?rs ! k)) q" if "q < n_particles" for q
  proof -
    from that have "(0::int) \<le> int q" "int q < int n_particles" by simp_all
    from chain_covers[OF ch this] len show ?thesis by (simp add: in_range_def)
  qed
  have ord: "snd (?rs ! k) \<le> fst (?rs ! k')" if "k < k' \<and> k' < length vols" for k k'
    using that chain_ordered[OF ch, of k k'] len by simp
  from init_loop_state[OF assms(2) t0 ch[unfolded vol_ranges_def], of rnd "set_all_unused s"]
  have "\<forall>q. \<exists>s'. init_loop fl rnd ?t (length vols) 0 0 vols (set_all_unused s) = (None, s') \<and>
           (\<forall>k < length vols. in_range (fst (?rs ! k)) (snd (?rs ! k)) q \<longrightarrow>
              is_used s' q = 1 \<and> (\<forall>mn sz mat. vols ! k = CubeVolume mn sz mat \<longrightarrow> materials s' q = mat))"
    unfolding vol_ranges_def by blast
  note lp = this
  have eq: "init_vols fl rnd vols s = init_loop fl rnd ?t (length vols) 0 0 vols (set_all_unused s)"
    by (rule init_vols_cubes[OF all_cubes_has_volumes[OF assms(2)]])
  have st: "\<forall>q. \<exists>s'. init_vols fl rnd vols s = (None, s') \<and>
           (\<forall>k < length vols. in_range (fst (?rs ! k)) (snd (?rs ! k)) q \<longrightarrow>
              is_used s' q = 1 \<and> (\<forall>mn sz mat. vols ! k = CubeVolume mn sz mat \<longrightarrow> materials s' q = mat))"
    unfolding eq by (rule lp)
  then obtain s' where s': "init_vols fl rnd vols s = (None, s')" by blast
  have seeded: "is_used s' q = 1 \<and> (\<forall>mn sz mat. vols ! k = CubeVolume mn sz mat \<longrightarrow> materials s' q = mat)"
    if "k < length vols" and "in_range (fst (?rs ! k)) (snd (?rs ! k)) q" for k q
    using st[rule_format, of q] s' that by auto
  from s' len ch sh cov ord seeded show ?thesis by blast
qed

text \<open>
  The witness of C6: two unit cubes, which get one half of the particles each. All
  the numbers of this run are float64 numbers, so that no operation rounds.
\<close>

theorem volume_partition_witness:
  "rounds_within no_rounding unit_roundoff \<and> all_cubes two_cubes \<and>
   nonneg_volumes no_rounding two_cubes \<and> 0 < total_of no_rounding two_cubes \<and>
   length two_cubes \<le> n_particles \<and>
   vol_ranges no_rounding two_cubes = [(0, 262144), (262144, 524288)] \<and>
   (\<exists>s'. init_vols no_rounding no_draws two_cubes blank_state = (None, s') \<and>
         chain 0 (vol_ranges no_rounding two_cubes) (int n_particles) \<and>
         is_used s' 5 = 1 \<and> materials s' 5 = WATER \<and>
         is_used s' 300000 = 1 \<and> materials s' 300000 = SNOW)"
proof -
  have r: "rounds_within no_rounding unit_roundoff"
    by (simp add: rounds_within_no_rounding unit_roundoff_def)
  have a: "all_cubes two_cubes" and b: "nonneg_volumes no_rounding two_cubes"
    and c: "0 < total_of no_rounding two_cubes" and d: "length two_cubes \<le> n_particles"
    by (simp_all add: all_cubes_def nonneg_volumes_def total_of_def two_cubes_def vol_of_def
        cube_volume_def no_rounding_def n_particles_value)
  from volume_partition[OF r a b c d, of no_draws blank_state] obtain s' where
    s': "init_vols no_rounding no_draws two_cubes blank_state = (None, s')"
    and ch: "chain 0 (vol_ranges no_rounding two_cubes) (int n_particles)"
    and seeded: "\<forall>k < length two_cubes. \<forall>q.
              in_range (fst (vol_ranges no_rounding two_cubes ! k)) (snd (vol_ranges no_rounding two_cubes ! k)) q \<longrightarrow>
              is_used s' q = 1 \<and> (\<forall>mn sz mat. two_cubes ! k = CubeVolume mn sz mat \<longrightarrow> materials s' q = mat)"
    by (elim exE conjE) (rule that, assumption+)
  from seeded[rule_format, of 0 5] have "is_used s' 5 = 1 \<and> materials s' 5 = WATER"
    by (simp add: two_cubes_ranges in_range_def) (simp add: two_cubes_def)
  moreover from seeded[rule_format, of 1 300000] have "is_used s' 300000 = 1 \<and> materials s' 300000 = SNOW"
    by (simp add: two_cubes_ranges in_range_def) (simp add: two_cubes_def)
  ultimately show ?thesis using r a b c d s' ch two_cubes_ranges
    by (intro conjI exI[of _ s']) simp_all
qed

text \<open>
  The counterexample of C6: three cuboids of volumes 2, -1 and 1 have the positive
  total 2, and no operation of this run rounds; the second range runs backwards, and
  particle 400000 lies in the first range and in the third, whose material it ends
  with.
\<close>

theorem volume_partition_counterexample:
  "all_cubes inverted_cube \<and> 0 < total_of no_rounding inverted_cube \<and>
   vol_ranges no_rounding inverted_cube = [(0, 524288), (524288, 262144), (262144, 524288)] \<and>
   in_range 0 524288 400000 \<and> in_range 262144 524288 400000 \<and>
   \<not> chain 0 (vol_ranges no_rounding inverted_cube) (int n_particles) \<and>
   fst (init_vols no_rounding no_draws inverted_cube blank_state) = None \<and>
   materials (snd (init_vols no_rounding no_draws inverted_cube blank_state)) 400000 = SNOW"
proof -
  have t: "total_of no_rounding inverted_cube = 2"
    by (simp add: total_of_def inverted_cube_def vol_of_def cube_volume_def no_rounding_def)
  have a: "all_cubes inverted_cube" and c: "0 < total_of no_rounding inverted_cube"
    unfolding t by (simp_all add: all_cubes_def inverted_cube_def)
  have r: "in_range 0 524288 400000 \<and> in_range 262144 524288 400000" by (simp add: in_range_def)
  have n: "\<not> chain 0 (vol_ranges no_rounding inverted_cube) (int n_particles)"
    by (simp add: inverted_cube_ranges)
  have h: "has_volumes inverted_cube" by (simp add: has_volumes_def inverted_cube_def)
  have "fst (init_vols no_rounding no_draws inverted_cube blank_state) = None \<and>
        materials (snd (init_vols no_rounding no_draws inverted_cube blank_state)) 400000 = SNOW"
    unfolding init_vols_cubes[OF h] t
    by (simp add: inverted_cube_def cube_volume_def no_rounding_def par_count_of_def cast_int_def
        n_particles_value init_cube_vol_def in_range_def)
  with a c r n inverted_cube_ranges show ?thesis by blast
qed




end
